theory Spec2Isabelle
  imports Complex_Main "HOL-Library.AList"
begin

section \<open>Python values and exceptions\<close>

text \<open>
  The functions of \<^verbatim>\<open>main.py\<close> and \<^verbatim>\<open>test2.py\<close> work on what
  \<^verbatim>\<open>json.loads\<close> and \<^verbatim>\<open>resp.json()\<close> return: dynamically typed values.
  A \<^verbatim>\<open>dict\<close> is an association list in insertion order (its keys are strings, as in
  every decoded JSON object), an \<^verbatim>\<open>int\<close> is unbounded.
\<close>

text \<open>
  A \<^verbatim>\<open>float\<close> is a double: a finite one, given by the real number it is, an infinity,
  or NaN (\<^verbatim>\<open>json.loads\<close> decodes the texts \<^verbatim>\<open>Infinity\<close>, \<^verbatim>\<open>-Infinity\<close> and
  \<^verbatim>\<open>NaN\<close> to these).
\<close>

datatype pyfloat = Finite real | PosInf | NegInf | NaN

datatype pyval =
    PNone
  | PBool bool
  | PInt int
  | PFloat pyfloat
  | PStr string
  | PList "pyval list"
  | PDict "(string \<times> pyval) list"

text \<open>The exceptions that the modelled code can raise; their messages are left out.\<close>

datatype py_error =
    ValueError
  | RuntimeError
  | AttributeError
  | TypeError
  | IndexError
  | OverflowError
  | JSONDecodeError

text \<open>\<^verbatim>\<open>bool(x)\<close>, as used by \<^verbatim>\<open>if x\<close> and \<^verbatim>\<open>not x\<close>.\<close>

fun truthy :: "pyval \<Rightarrow> bool" where
  "truthy PNone = False"
| "truthy (PBool b) = b"
| "truthy (PInt i) = (i \<noteq> 0)"
| "truthy (PFloat f) = (f \<noteq> Finite 0)"
| "truthy (PStr s) = (s \<noteq> [])"
| "truthy (PList xs) = (xs \<noteq> [])"
| "truthy (PDict kvs) = (kvs \<noteq> [])"

text \<open>\<^verbatim>\<open>a > b\<close> on floats: false as soon as one of them is NaN.\<close>

fun float_gt :: "pyfloat \<Rightarrow> pyfloat \<Rightarrow> bool" where
  "float_gt NaN _ = False"
| "float_gt _ NaN = False"
| "float_gt (Finite a) (Finite b) = (a > b)"
| "float_gt PosInf PosInf = False"
| "float_gt PosInf _ = True"
| "float_gt _ PosInf = False"
| "float_gt NegInf _ = False"
| "float_gt _ NegInf = True"

text \<open>
  The value of a number, for comparisons: Python compares an \<^verbatim>\<open>int\<close> with a
  \<^verbatim>\<open>float\<close> by their exact values, without rounding the \<^verbatim>\<open>int\<close>.
  \<^verbatim>\<open>bool\<close> is a subclass of \<^verbatim>\<open>int\<close>, so \<^verbatim>\<open>isinstance(x, (int, float))\<close>
  holds for the three kinds of number and for nothing else.
\<close>

fun num_val :: "pyval \<Rightarrow> pyfloat option" where
  "num_val (PBool b) = Some (Finite (if b then 1 else 0))"
| "num_val (PInt i) = Some (Finite (of_int i))"
| "num_val (PFloat f) = Some f"
| "num_val _ = None"

definition is_number :: "pyval \<Rightarrow> bool" where
  "is_number v = (num_val v \<noteq> None)"

text \<open>\<^verbatim>\<open>n.bit_length()\<close> of an \<^verbatim>\<open>int\<close> that is not negative.\<close>

function bit_length :: "int \<Rightarrow> nat" where
  "bit_length n = (if n \<le> 0 then 0 else Suc (bit_length (n div 2)))"
  by pat_completeness auto
termination
  by (relation "measure nat") auto

text \<open>
  \<^verbatim>\<open>float(i)\<close> of an \<^verbatim>\<open>int\<close>: the nearest double, a tie going to the even
  mantissa of 53 bits; \<open>None\<close> stands for the \<^verbatim>\<open>OverflowError\<close> of an \<^verbatim>\<open>int\<close>
  that rounds beyond the largest double. Below \<open>2 ^ 53\<close> in absolute value nothing is
  rounded.
\<close>

definition int_to_double :: "int \<Rightarrow> real option" where
  "int_to_double i =
     (let n = \<bar>i\<bar>;
          e = bit_length n - 53;
          q = n div 2 ^ e;
          r = n mod 2 ^ e;
          q' = (if 2 * r > 2 ^ e \<or> (2 * r = 2 ^ e \<and> odd q) then q + 1 else q);
          m = q' * 2 ^ e
      in if m \<ge> 2 ^ 1024 then None else Some (of_int (sgn i * m)))"

text \<open>
  \<^verbatim>\<open>float(x)\<close> behind the test \<^verbatim>\<open>isinstance(x, (int, float))\<close>, as both calls of
  the program stand: \<open>None\<close> when \<open>x\<close> is not a number and \<^verbatim>\<open>float\<close> is not called,
  else what the call does.
\<close>

fun float_of_number :: "pyval \<Rightarrow> (py_error + pyfloat) option" where
  "float_of_number (PBool b) = Some (Inr (Finite (if b then 1 else 0)))"
| "float_of_number (PInt i) =
     Some (case int_to_double i of Some r \<Rightarrow> Inr (Finite r) | None \<Rightarrow> Inl OverflowError)"
| "float_of_number (PFloat f) = Some (Inr f)"
| "float_of_number _ = None"

text \<open>
  \<^verbatim>\<open>x.get(k, d)\<close>: only a \<^verbatim>\<open>dict\<close> has the method, on any other value the
  attribute lookup raises \<^verbatim>\<open>AttributeError\<close>.
\<close>

fun dict_get :: "pyval \<Rightarrow> string \<Rightarrow> pyval \<Rightarrow> py_error + pyval" where
  "dict_get (PDict kvs) k d = Inr (case map_of kvs k of Some v \<Rightarrow> v | None \<Rightarrow> d)"
| "dict_get _ k d = Inl AttributeError"

text \<open>
  \<^verbatim>\<open>json.loads(x)\<close>. The decoder is a library function; its behaviour on strings is the
  parameter \<open>loads\<close> (\<open>None\<close> for a \<^verbatim>\<open>JSONDecodeError\<close>). On a value that is not a string
  it raises \<^verbatim>\<open>TypeError\<close>. What else the decoder can raise on a string (a
  \<^verbatim>\<open>ValueError\<close> for an integer literal of too many digits, a
  \<^verbatim>\<open>RecursionError\<close>) is not modelled.
\<close>

fun json_loads :: "(string \<Rightarrow> pyval option) \<Rightarrow> pyval \<Rightarrow> py_error + pyval" where
  "json_loads loads (PStr s) = (case loads s of Some v \<Rightarrow> Inr v | None \<Rightarrow> Inl JSONDecodeError)"
| "json_loads loads _ = Inl TypeError"

text \<open>
  \<^verbatim>\<open>max(a, b)\<close> on two values: \<open>b\<close> if \<^verbatim>\<open>b > a\<close>, else \<open>a\<close>. Numbers compare by
  value; a number against \<^verbatim>\<open>None\<close>, a string, a list or a dict raises
  \<^verbatim>\<open>TypeError\<close>. The first argument is a number wherever this program calls it
  (lemma \<open>etas_numeric\<close> below), so the comparisons of two strings or two lists never arise.
\<close>

definition py_max :: "pyval \<Rightarrow> pyval \<Rightarrow> py_error + pyval" where
  "py_max a b =
     (case (num_val a, num_val b) of
        (Some x, Some y) \<Rightarrow> Inr (if float_gt y x then b else a)
      | _ \<Rightarrow> Inl TypeError)"

text \<open>
  \<^verbatim>\<open>max(xs) if xs else None\<close> on a list of floats: \<^verbatim>\<open>max\<close> keeps the first element
  and replaces it by each later one that is greater, so a NaN in front stays.
\<close>

fun max_or_none :: "pyfloat list \<Rightarrow> pyfloat option" where
  "max_or_none [] = None"
| "max_or_none (x # xs) = Some (fold (\<lambda>y m. if float_gt y m then y else m) xs x)"

subsection \<open>Strings\<close>

text \<open>\<^verbatim>\<open>s.startswith(p)\<close>.\<close>

definition startswith :: "string \<Rightarrow> string \<Rightarrow> bool" where
  "startswith s p = (take (length p) s = p)"

text \<open>\<^verbatim>\<open>needle in haystack\<close> on strings.\<close>

fun contains :: "string \<Rightarrow> string \<Rightarrow> bool" where
  "contains needle [] = (needle = [])"
| "contains needle (c # cs) = (startswith (c # cs) needle \<or> contains needle cs)"

text \<open>\<^verbatim>\<open>url.lstrip("/")\<close>.\<close>

definition lstrip_slash :: "string \<Rightarrow> string" where
  "lstrip_slash url = dropWhile (\<lambda>c. c = CHR ''/'') url"

text \<open>\<^verbatim>\<open>u.split("/", 1)[0]\<close> and \<^verbatim>\<open>u.split('/')[0]\<close>: the text before the first slash.\<close>

definition first_segment :: "string \<Rightarrow> string" where
  "first_segment u = takeWhile (\<lambda>c. c \<noteq> CHR ''/'') u"

text \<open>\<^verbatim>\<open>s.lower()\<close>, on the ASCII letters (header names are ASCII).\<close>

definition char_lower :: "char \<Rightarrow> char" where
  "char_lower c =
     (case map_of (zip ''ABCDEFGHIJKLMNOPQRSTUVWXYZ'' ''abcdefghijklmnopqrstuvwxyz'') c of
        Some l \<Rightarrow> l
      | None \<Rightarrow> c)"

definition lower :: "string \<Rightarrow> string" where
  "lower s = map char_lower s"

section \<open>The rate-limit summary (\<^verbatim>\<open>test2.py\<close>, \<^verbatim>\<open>_summarize_rate_limits_from_batch\<close>)\<close>

text \<open>
  One processed sub-request, the dict \<^verbatim>\<open>result_item\<close> that
  \<^verbatim>\<open>send_batch_to_facebook\<close> builds. \<^verbatim>\<open>main.py\<close> builds it without the key
  \<^verbatim>\<open>headers\<close>, \<^verbatim>\<open>test2.py\<close> with it.
\<close>

record result_item =
  request_index :: nat
  requested_url :: pyval
  status_code :: pyval
  data :: pyval
  error :: pyval

record result_item_h = result_item +
  headers :: pyval

text \<open>
  \<^verbatim>\<open>for h in headers_list\<close>: a list gives its elements, a dict its keys, a string its
  characters; a number is not iterable.
\<close>

fun iterate :: "pyval \<Rightarrow> py_error + pyval list" where
  "iterate (PList xs) = Inr xs"
| "iterate (PDict kvs) = Inr (map (\<lambda>kv. PStr (fst kv)) kvs)"
| "iterate (PStr s) = Inr (map (\<lambda>c. PStr [c]) s)"
| "iterate _ = Inl TypeError"

text \<open>
  The comprehension
  \<^verbatim>\<open>{h.get("name", "").lower(): h.get("value") for h in headers_list}\<close>, element by
  element: a later header of the same lower-cased name replaces the value of an earlier one.
  \<^verbatim>\<open>.lower()\<close> exists on strings only.
\<close>

fun headers_dict_of :: "pyval list \<Rightarrow> (string \<times> pyval) list \<Rightarrow> py_error + (string \<times> pyval) list" where
  "headers_dict_of [] d = Inr d"
| "headers_dict_of (h # hs) d =
     (case dict_get h ''name'' (PStr []) of
        Inl e \<Rightarrow> Inl e
      | Inr (PStr n) \<Rightarrow>
          (case dict_get h ''value'' PNone of
             Inl e \<Rightarrow> Inl e
           | Inr v \<Rightarrow> headers_dict_of hs (AList.update (lower n) v d))
      | Inr _ \<Rightarrow> Inl AttributeError)"

text \<open>
  \<^verbatim>\<open>result.get("requested_url", "").split('/')[0]\<close>, kept when it starts with
  \<^verbatim>\<open>act_\<close>; any exception (the url is \<^verbatim>\<open>None\<close>) gives \<^verbatim>\<open>None\<close>.
\<close>

fun acc_id_from_url :: "pyval \<Rightarrow> string option" where
  "acc_id_from_url (PStr u) =
     (if startswith (first_segment u) ''act_'' then Some (first_segment u) else None)"
| "acc_id_from_url _ = None"

text \<open>
  The three accumulators of the loop, \<^verbatim>\<open>app_usage_values\<close>, \<^verbatim>\<open>account_usages\<close>
  and \<^verbatim>\<open>etas\<close>, travel as a triple.
\<close>

type_synonym agg = "pyfloat list \<times> (string \<times> pyfloat) list \<times> (string \<times> pyval) list"

text \<open>
  A \<^verbatim>\<open>try\<close> body that mutates the accumulators returns the accumulators it reached and
  the exception that stopped it, if any; \<^verbatim>\<open>except (json.JSONDecodeError, TypeError): pass\<close>
  swallows these two and keeps the mutations, every other exception leaves the function.
\<close>

definition except_pass :: "'s \<times> py_error option \<Rightarrow> py_error + 's" where
  "except_pass r =
     (case r of
        (s, None) \<Rightarrow> Inr s
      | (s, Some e) \<Rightarrow> (if e = JSONDecodeError \<or> e = TypeError then Inr s else Inl e))"

text \<open>Block 1 of the loop body: the header \<^verbatim>\<open>x-fb-ads-insights-throttle\<close>.\<close>

definition throttle_body ::
  "(string \<Rightarrow> pyval option) \<Rightarrow> pyval \<Rightarrow> string option \<Rightarrow> agg \<Rightarrow> agg \<times> py_error option" where
  "throttle_body loads throttle_str acc_id st =
     (case st of (app_usage_values, account_usages, etas) \<Rightarrow>
        (case json_loads loads throttle_str of
           Inl e \<Rightarrow> (st, Some e)
         | Inr throttle \<Rightarrow>
             (case dict_get throttle ''app_id_util_pct'' PNone of
                Inl e \<Rightarrow> (st, Some e)
              | Inr a \<Rightarrow>
                  (case float_of_number a of
                     Some (Inl e) \<Rightarrow> (st, Some e)
                   | app \<Rightarrow>
                       (let app_usage_values' =
                              (case app of
                                 Some (Inr f) \<Rightarrow> app_usage_values @ [f]
                               | _ \<Rightarrow> app_usage_values)
                        in case acc_id of
                             None \<Rightarrow> ((app_usage_values', account_usages, etas), None)
                           | Some acc \<Rightarrow>
                               (case dict_get throttle ''acc_id_util_pct'' PNone of
                                  Inl e \<Rightarrow> ((app_usage_values', account_usages, etas), Some e)
                                | Inr u \<Rightarrow>
                                    (case float_of_number u of
                                       Some (Inl e) \<Rightarrow>
                                         ((app_usage_values', account_usages, etas), Some e)
                                     | Some (Inr f) \<Rightarrow>
                                         ((app_usage_values',
                                           AList.update acc f account_usages, etas), None)
                                     | None \<Rightarrow>
                                         ((app_usage_values', account_usages, etas),
                                          None))))))))"

text \<open>
  Block 2: the header \<^verbatim>\<open>x-business-use-case-usage\<close>. The inner loop reads
  \<^verbatim>\<open>etas.get(buc_acc_id, 0)\<close> and writes \<^verbatim>\<open>etas["act_" + buc_acc_id]\<close>.
\<close>

fun eta_entries ::
  "string \<Rightarrow> pyval list \<Rightarrow> (string \<times> pyval) list \<Rightarrow> (string \<times> pyval) list \<times> py_error option" where
  "eta_entries buc_acc_id [] etas = (etas, None)"
| "eta_entries buc_acc_id (entry # entries) etas =
     (case dict_get entry ''estimated_time_to_regain_access'' (PInt 0) of
        Inl e \<Rightarrow> (etas, Some e)
      | Inr entry_eta \<Rightarrow>
          (case py_max (case map_of etas buc_acc_id of Some v \<Rightarrow> v | None \<Rightarrow> PInt 0) entry_eta of
             Inl e \<Rightarrow> (etas, Some e)
           | Inr m \<Rightarrow> eta_entries buc_acc_id entries (AList.update (''act_'' @ buc_acc_id) m etas)))"

fun buc_items ::
  "(string \<times> pyval) list \<Rightarrow> (string \<times> pyval) list \<Rightarrow> (string \<times> pyval) list \<times> py_error option" where
  "buc_items [] etas = (etas, None)"
| "buc_items ((buc_acc_id, PList entries) # rest) etas =
     (case eta_entries buc_acc_id entries etas of
        (etas', None) \<Rightarrow> buc_items rest etas'
      | (etas', Some e) \<Rightarrow> (etas', Some e))"
| "buc_items ((buc_acc_id, _) # rest) etas = buc_items rest etas"

text \<open>\<^verbatim>\<open>buc.items()\<close> exists on a dict only.\<close>

definition buc_body ::
  "(string \<Rightarrow> pyval option) \<Rightarrow> pyval \<Rightarrow> agg \<Rightarrow> agg \<times> py_error option" where
  "buc_body loads buc_str st =
     (case st of (app_usage_values, account_usages, etas) \<Rightarrow>
        (case json_loads loads buc_str of
           Inl e \<Rightarrow> (st, Some e)
         | Inr (PDict kvs) \<Rightarrow>
             (case buc_items kvs etas of
                (etas', eo) \<Rightarrow> ((app_usage_values, account_usages, etas'), eo))
         | Inr _ \<Rightarrow> (st, Some AttributeError)))"

text \<open>\<^verbatim>\<open>headers_dict.get(name, "{}")\<close>.\<close>

definition header_or_empty :: "(string \<times> pyval) list \<Rightarrow> string \<Rightarrow> pyval" where
  "header_or_empty headers_dict name =
     (case map_of headers_dict name of Some v \<Rightarrow> v | None \<Rightarrow> PStr ''{}'')"

text \<open>One round of \<^verbatim>\<open>for result in results\<close>.\<close>

definition summarize_result ::
  "(string \<Rightarrow> pyval option) \<Rightarrow> agg \<Rightarrow> result_item_h \<Rightarrow> py_error + agg" where
  "summarize_result loads st result =
     (if \<not> truthy (headers result) then Inr st
      else
        (case iterate (headers result) of
           Inl e \<Rightarrow> Inl e
         | Inr headers_list \<Rightarrow>
             (case headers_dict_of headers_list [] of
                Inl e \<Rightarrow> Inl e
              | Inr headers_dict \<Rightarrow>
                  (case except_pass
                          (throttle_body loads
                             (header_or_empty headers_dict ''x-fb-ads-insights-throttle'')
                             (acc_id_from_url (requested_url result)) st) of
                     Inl e \<Rightarrow> Inl e
                   | Inr st1 \<Rightarrow>
                       except_pass
                         (buc_body loads
                            (header_or_empty headers_dict ''x-business-use-case-usage'') st1)))))"

fun summarize_loop ::
  "(string \<Rightarrow> pyval option) \<Rightarrow> agg \<Rightarrow> result_item_h list \<Rightarrow> py_error + agg" where
  "summarize_loop loads st [] = Inr st"
| "summarize_loop loads st (result # results) =
     (case summarize_result loads st result of
        Inl e \<Rightarrow> Inl e
      | Inr st' \<Rightarrow> summarize_loop loads st' results)"

text \<open>
  The returned dict; the nested \<^verbatim>\<open>account_details\<close> is flattened into the record.
\<close>

record summary =
  insights_app_usage :: "pyfloat option"
  insights_account_usages :: "(string \<times> pyfloat) list"
  etas :: "(string \<times> pyval) list"

definition summarize_rate_limits_from_batch ::
  "(string \<Rightarrow> pyval option) \<Rightarrow> result_item_h list \<Rightarrow> py_error + summary" where
  "summarize_rate_limits_from_batch loads results =
     (case summarize_loop loads ([], [], []) results of
        Inl e \<Rightarrow> Inl e
      | Inr (app_usage_values, account_usages, etas_dict) \<Rightarrow>
          Inr \<lparr> insights_app_usage = max_or_none app_usage_values,
                insights_account_usages = account_usages,
                etas = etas_dict \<rparr>)"

section \<open>Sending a batch (\<^verbatim>\<open>send_batch_to_facebook\<close>)\<close>

definition API_VERSION :: string where
  "API_VERSION = ''v23.0''"

text \<open>
  The form that \<^verbatim>\<open>requests.post\<close> sends: the endpoint, the credential, the batch (the
  list that \<^verbatim>\<open>json.dumps\<close> encodes, one pair of method and relative url per
  sub-request) and the header flag.
\<close>

record request =
  api_url :: string
  access_token :: string
  batch :: "(string \<times> string) list"
  include_headers :: string

text \<open>
  What the single outbound call gives back: \<^verbatim>\<open>requests.post\<close> or
  \<^verbatim>\<open>raise_for_status\<close> raised a \<^verbatim>\<open>RequestException\<close>, or the answer is not JSON,
  or it decodes to a value. The answer is an input of the model, and the requests handed to the
  network are part of its result, so that a run without an outbound call shows as an empty
  list of requests.
\<close>

datatype response = RequestFailed | NotJson | Json pyval

definition build_request :: "string \<Rightarrow> string \<Rightarrow> string list \<Rightarrow> request" where
  "build_request api_version token normalized_urls =
     \<lparr> api_url = ''https://graph.facebook.com/'' @ api_version,
       access_token = token,
       batch = map (\<lambda>u. (''GET'', u)) normalized_urls,
       include_headers = ''true'' \<rparr>"

text \<open>\<^verbatim>\<open>not access_token or "YOUR_ACCESS_TOKEN" in access_token\<close>.\<close>

definition bad_token :: "string \<Rightarrow> bool" where
  "bad_token token = (token = [] \<or> contains ''YOUR_ACCESS_TOKEN'' token)"

text \<open>\<^verbatim>\<open>not 1 <= len(relative_urls) <= 50\<close>.\<close>

definition bad_count :: "'a list \<Rightarrow> bool" where
  "bad_count relative_urls = (\<not> (1 \<le> length relative_urls \<and> length relative_urls \<le> 50))"

text \<open>\<^verbatim>\<open>BatchRequest.validate_urls\<close> of \<^verbatim>\<open>models.py\<close> and \<^verbatim>\<open>main.py\<close>.\<close>

definition validate_urls :: "string list \<Rightarrow> py_error + string list" where
  "validate_urls v = (if bad_count v then Inl ValueError else Inr v)"

text \<open>\<^verbatim>\<open>x == 200\<close>: numbers are equal by value, a \<^verbatim>\<open>bool\<close> is 0 or 1.\<close>

definition is_200 :: "pyval \<Rightarrow> bool" where
  "is_200 v = (num_val v = Some (Finite 200))"

subsection \<open>\<^verbatim>\<open>main.py\<close>\<close>

text \<open>
  The normalisation loop: strip the leading slashes, refuse a url that carries the version.
  In Python \<^verbatim>\<open>a or b and c\<close> is \<^verbatim>\<open>a or (b and c)\<close>.
\<close>

fun normalize_urls :: "string \<Rightarrow> string list \<Rightarrow> py_error + string list" where
  "normalize_urls api_version [] = Inr []"
| "normalize_urls api_version (url # urls) =
     (let u = lstrip_slash url in
      if startswith u (api_version @ ''/'')
         \<or> (startswith u ''v'' \<and> first_segment u = api_version)
      then Inl ValueError
      else (case normalize_urls api_version urls of
              Inl e \<Rightarrow> Inl e
            | Inr us \<Rightarrow> Inr (u # us)))"

text \<open>
  The two error texts of \<^verbatim>\<open>main.py\<close>; the source writes them in Vietnamese, given here
  without the diacritics.
\<close>

definition null_result_text :: string where
  "null_result_text = ''Ket qua NULL (yeu cau co the that bai hoac bi bo qua).''"

definition body_not_json_text :: string where
  "body_not_json_text = ''Body khong phai JSON. Raw: ''"

text \<open>
  \<^verbatim>\<open>body_json["error"] if isinstance(body_json, dict) and "error" in body_json else body_json\<close>.
\<close>

fun error_or_whole :: "pyval \<Rightarrow> pyval" where
  "error_or_whole (PDict kvs) = (case map_of kvs ''error'' of Some e \<Rightarrow> e | None \<Rightarrow> PDict kvs)"
| "error_or_whole v = v"

text \<open>One round of \<^verbatim>\<open>for i, item in enumerate(data)\<close>.\<close>

definition process_item ::
  "(string \<Rightarrow> pyval option) \<Rightarrow> string list \<Rightarrow> nat \<Rightarrow> pyval \<Rightarrow> py_error + result_item" where
  "process_item loads normalized_urls i item =
     (let result_item =
            \<lparr> request_index = i,
              requested_url =
                (if i < length normalized_urls then PStr (normalized_urls ! i) else PNone),
              status_code = PNone, data = PNone, error = PNone \<rparr>
      in if item = PNone then Inr (result_item\<lparr>error := PStr null_result_text\<rparr>)
         else
           (case dict_get item ''code'' PNone of
              Inl e \<Rightarrow> Inl e
            | Inr code \<Rightarrow>
                (case dict_get item ''body'' (PStr []) of
                   Inl e \<Rightarrow> Inl e
                 | Inr body_text \<Rightarrow>
                     (case (if truthy body_text then json_loads loads body_text
                            else Inr (PDict [])) of
                        Inl e \<Rightarrow>
                          (case (e, body_text) of
                             (JSONDecodeError, PStr s) \<Rightarrow>
                               Inr (result_item\<lparr>status_code := code,
                                      error := PStr (body_not_json_text @ take 500 s)\<rparr>)
                           | _ \<Rightarrow> Inl e)
                      | Inr body_json \<Rightarrow>
                          (if is_200 code
                           then Inr (result_item\<lparr>status_code := code, data := body_json\<rparr>)
                           else Inr (result_item\<lparr>status_code := code,
                                       error := error_or_whole body_json\<rparr>))))))"

fun process_items ::
  "(string \<Rightarrow> pyval option) \<Rightarrow> string list \<Rightarrow> nat \<Rightarrow> pyval list \<Rightarrow> py_error + result_item list" where
  "process_items loads normalized_urls i [] = Inr []"
| "process_items loads normalized_urls i (item # items) =
     (case process_item loads normalized_urls i item of
        Inl e \<Rightarrow> Inl e
      | Inr r \<Rightarrow>
          (case process_items loads normalized_urls (Suc i) items of
             Inl e \<Rightarrow> Inl e
           | Inr rs \<Rightarrow> Inr (r # rs)))"

text \<open>
  Everything after the outbound call. A top-level dict with the key \<^verbatim>\<open>error\<close> is reported
  as \<^verbatim>\<open>RuntimeError\<close> (its \<^verbatim>\<open>err.get\<close> needs the error to be a dict); any other value
  that is not a list as well.
\<close>

definition process_response ::
  "(string \<Rightarrow> pyval option) \<Rightarrow> string list \<Rightarrow> response \<Rightarrow> py_error + result_item list" where
  "process_response loads normalized_urls resp =
     (case resp of
        RequestFailed \<Rightarrow> Inl RuntimeError
      | NotJson \<Rightarrow> Inl RuntimeError
      | Json (PDict kvs) \<Rightarrow>
          (case map_of kvs ''error'' of
             Some (PDict err) \<Rightarrow> Inl RuntimeError
           | Some _ \<Rightarrow> Inl AttributeError
           | None \<Rightarrow> Inl RuntimeError)
      | Json (PList items) \<Rightarrow> process_items loads normalized_urls 0 items
      | Json _ \<Rightarrow> Inl RuntimeError)"

definition send_batch_to_facebook ::
  "(string \<Rightarrow> pyval option) \<Rightarrow> response \<Rightarrow> string list \<Rightarrow> string \<Rightarrow> string
     \<Rightarrow> (py_error + result_item list) \<times> request list" where
  "send_batch_to_facebook loads resp relative_urls token api_version =
     (if bad_token token then (Inl ValueError, [])
      else if bad_count relative_urls then (Inl ValueError, [])
      else
        (case normalize_urls api_version relative_urls of
           Inl e \<Rightarrow> (Inl e, [])
         | Inr normalized_urls \<Rightarrow>
             (process_response loads normalized_urls resp,
              [build_request api_version token normalized_urls])))"

subsection \<open>\<^verbatim>\<open>test2.py\<close>\<close>

text \<open>
  The copy of the function in \<^verbatim>\<open>test2.py\<close> keeps the echoed headers in each entry, does
  not look for the version in the urls, and reads \<^verbatim>\<open>item.get("code")\<close> and
  \<^verbatim>\<open>normalized_urls[i]\<close> while it builds the entry, before it tests \<^verbatim>\<open>if item\<close>.
\<close>

definition body_not_json_message :: pyval where
  "body_not_json_message = PDict [(''message'', PStr ''Body khong phai JSON.'')]"

definition null_result_message :: pyval where
  "null_result_message = PDict [(''message'', PStr ''Ket qua NULL.'')]"

definition process_item_t2 ::
  "(string \<Rightarrow> pyval option) \<Rightarrow> string list \<Rightarrow> nat \<Rightarrow> pyval \<Rightarrow> py_error + result_item_h" where
  "process_item_t2 loads normalized_urls i item =
     (if \<not> i < length normalized_urls then Inl IndexError
      else
        (case dict_get item ''code'' PNone of
           Inl e \<Rightarrow> Inl e
         | Inr code \<Rightarrow>
             (case dict_get item ''headers'' (PList []) of
                Inl e \<Rightarrow> Inl e
              | Inr hs \<Rightarrow>
                  (let result_item =
                         \<lparr> request_index = i, requested_url = PStr (normalized_urls ! i),
                           status_code = code, data = PNone, error = PNone, headers = hs \<rparr>
                   in if truthy item then
                        (case dict_get item ''body'' (PStr ''{}'') of
                           Inl e \<Rightarrow> Inl e
                         | Inr body_text \<Rightarrow>
                             (case json_loads loads body_text of
                                Inl e \<Rightarrow>
                                  (if e = JSONDecodeError
                                   then Inr (result_item\<lparr>error := body_not_json_message\<rparr>)
                                   else Inl e)
                              | Inr body_json \<Rightarrow>
                                  (if is_200 code then Inr (result_item\<lparr>data := body_json\<rparr>)
                                   else
                                     (case dict_get body_json ''error'' body_json of
                                        Inl e \<Rightarrow> Inl e
                                      | Inr er \<Rightarrow> Inr (result_item\<lparr>error := er\<rparr>)))))
                      else Inr (result_item\<lparr>error := null_result_message\<rparr>)))))"

fun process_items_t2 ::
  "(string \<Rightarrow> pyval option) \<Rightarrow> string list \<Rightarrow> nat \<Rightarrow> pyval list \<Rightarrow> py_error + result_item_h list" where
  "process_items_t2 loads normalized_urls i [] = Inr []"
| "process_items_t2 loads normalized_urls i (item # items) =
     (case process_item_t2 loads normalized_urls i item of
        Inl e \<Rightarrow> Inl e
      | Inr r \<Rightarrow>
          (case process_items_t2 loads normalized_urls (Suc i) items of
             Inl e \<Rightarrow> Inl e
           | Inr rs \<Rightarrow> Inr (r # rs)))"

text \<open>
  Here \<^verbatim>\<open>resp.json()\<close> stands outside every \<^verbatim>\<open>try\<close>: an answer that is not JSON
  leaves the function as a \<^verbatim>\<open>JSONDecodeError\<close>.
\<close>

definition process_response_t2 ::
  "(string \<Rightarrow> pyval option) \<Rightarrow> string list \<Rightarrow> response \<Rightarrow> py_error + result_item_h list" where
  "process_response_t2 loads normalized_urls resp =
     (case resp of
        RequestFailed \<Rightarrow> Inl RuntimeError
      | NotJson \<Rightarrow> Inl JSONDecodeError
      | Json (PList items) \<Rightarrow> process_items_t2 loads normalized_urls 0 items
      | Json _ \<Rightarrow> Inl RuntimeError)"

definition send_batch_to_facebook_t2 ::
  "(string \<Rightarrow> pyval option) \<Rightarrow> response \<Rightarrow> string list \<Rightarrow> string \<Rightarrow> string
     \<Rightarrow> (py_error + result_item_h list) \<times> request list" where
  "send_batch_to_facebook_t2 loads resp relative_urls token api_version =
     (if bad_token token then (Inl ValueError, [])
      else if bad_count relative_urls then (Inl ValueError, [])
      else
        (let normalized_urls = map lstrip_slash relative_urls in
         (process_response_t2 loads normalized_urls resp,
          [build_request api_version token normalized_urls])))"

section \<open>What the specification says a result contributes\<close>

text \<open>
  The specification describes the summary by what each result contributes: its throttle
  header, located by name without regard to case, decoded, and read for the application
  percentage and for the percentage of the account that the request addresses. The
  definitions of this section follow those words, not the loop; the theorems below compare
  the two.
\<close>

text \<open>A header entry whose name, in lower case, is \<open>name\<close>.\<close>

fun header_matches :: "string \<Rightarrow> pyval \<Rightarrow> bool" where
  "header_matches name (PDict kvs) =
     (case map_of kvs ''name'' of Some (PStr n) \<Rightarrow> lower n = name | _ \<Rightarrow> False)"
| "header_matches name _ = False"

fun header_value :: "pyval \<Rightarrow> pyval" where
  "header_value (PDict kvs) = (case map_of kvs ''value'' of Some v \<Rightarrow> v | None \<Rightarrow> PNone)"
| "header_value _ = PNone"

text \<open>The value of the header of that name, the last one if the name is repeated.\<close>

definition located_header :: "string \<Rightarrow> pyval \<Rightarrow> pyval option" where
  "located_header name hl =
     (case hl of
        PList hs \<Rightarrow>
          (case filter (header_matches name) hs of
             [] \<Rightarrow> None
           | m # ms \<Rightarrow> Some (header_value (last (m # ms))))
      | _ \<Rightarrow> None)"

text \<open>The decoded throttle header of a result, when it is there and decodes to an object.\<close>

definition throttle_of :: "(string \<Rightarrow> pyval option) \<Rightarrow> result_item_h \<Rightarrow> (string \<times> pyval) list option" where
  "throttle_of loads result =
     (case located_header ''x-fb-ads-insights-throttle'' (headers result) of
        Some (PStr s) \<Rightarrow> (case loads s of Some (PDict kvs) \<Rightarrow> Some kvs | _ \<Rightarrow> None)
      | _ \<Rightarrow> None)"

text \<open>A member of the object that is a number, as the float that \<^verbatim>\<open>float\<close> makes of it.\<close>

definition numeric_field :: "(string \<times> pyval) list \<Rightarrow> string \<Rightarrow> pyfloat option" where
  "numeric_field kvs k =
     (case map_of kvs k of
        Some v \<Rightarrow> (case float_of_number v of Some (Inr f) \<Rightarrow> Some f | _ \<Rightarrow> None)
      | None \<Rightarrow> None)"

text \<open>The application percentage a result reports.\<close>

definition observed_app_usage :: "(string \<Rightarrow> pyval option) \<Rightarrow> result_item_h \<Rightarrow> pyfloat option" where
  "observed_app_usage loads result =
     (case throttle_of loads result of
        Some kvs \<Rightarrow> numeric_field kvs ''app_id_util_pct''
      | None \<Rightarrow> None)"

text \<open>
  The account percentage a result reports, with the account it is for: the first segment of
  the requested path, when that has the form of an account id.
\<close>

definition observed_account_usage ::
  "(string \<Rightarrow> pyval option) \<Rightarrow> result_item_h \<Rightarrow> (string \<times> pyfloat) option" where
  "observed_account_usage loads result =
     (case acc_id_from_url (requested_url result) of
        None \<Rightarrow> None
      | Some acc \<Rightarrow>
          (case throttle_of loads result of
             Some kvs \<Rightarrow> map_option (\<lambda>v. (acc, v)) (numeric_field kvs ''acc_id_util_pct'')
           | None \<Rightarrow> None))"

text \<open>The reports of one account in a result list, in list order.\<close>

definition account_reports ::
  "(string \<Rightarrow> pyval option) \<Rightarrow> string \<Rightarrow> result_item_h list \<Rightarrow> pyfloat list" where
  "account_reports loads acc results =
     map snd (filter (\<lambda>p. fst p = acc) (List.map_filter (observed_account_usage loads) results))"

section \<open>Example data\<close>

text \<open>
  Header and body texts as the Graph API sends them, and the values \<^verbatim>\<open>json.loads\<close>
  returns on them. \<open>example_loads\<close> is that finite part of the decoder: the examples below
  hand it these texts only, and one text that is not JSON.
\<close>

definition throttle_10_50 :: string where
  \<open>throttle_10_50 = ''{"app_id_util_pct": 10.0, "acc_id_util_pct": 50.0}''\<close>

definition throttle_25_10 :: string where
  \<open>throttle_25_10 = ''{"app_id_util_pct": 25.0, "acc_id_util_pct": 10.0}''\<close>

definition usage_0_120 :: string where
  \<open>usage_0_120 = ''{"123": [{"type": "ads_insights", "estimated_time_to_regain_access": 0}, {"type": "ads_management", "estimated_time_to_regain_access": 120}]}''\<close>

definition usage_120_0 :: string where
  \<open>usage_120_0 = ''{"123": [{"type": "ads_insights", "estimated_time_to_regain_access": 120}, {"type": "ads_management", "estimated_time_to_regain_access": 0}]}''\<close>

definition body_ok :: string where
  \<open>body_ok = ''{"data": []}''\<close>

definition body_err :: string where
  \<open>body_err = ''{"error": {"message": "Unsupported get request.", "code": 100}}''\<close>

definition usage_entry :: "string \<Rightarrow> int \<Rightarrow> pyval" where
  "usage_entry t eta = PDict [(''type'', PStr t), (''estimated_time_to_regain_access'', PInt eta)]"

definition example_loads :: "string \<Rightarrow> pyval option" where
  "example_loads s =
     (if s = ''{}'' then Some (PDict [])
      else if s = ''[]'' then Some (PList [])
      else if s = throttle_10_50
        then Some (PDict [(''app_id_util_pct'', PFloat (Finite 10)),
                          (''acc_id_util_pct'', PFloat (Finite 50))])
      else if s = throttle_25_10
        then Some (PDict [(''app_id_util_pct'', PFloat (Finite 25)),
                          (''acc_id_util_pct'', PFloat (Finite 10))])
      else if s = usage_0_120
        then Some (PDict [(''123'', PList [usage_entry ''ads_insights'' 0,
                                           usage_entry ''ads_management'' 120])])
      else if s = usage_120_0
        then Some (PDict [(''123'', PList [usage_entry ''ads_insights'' 120,
                                           usage_entry ''ads_management'' 0])])
      else if s = body_ok then Some (PDict [(''data'', PList [])])
      else if s = body_err
        then Some (PDict [(''error'', PDict [(''message'', PStr ''Unsupported get request.''),
                                             (''code'', PInt 100)])])
      else None)"

text \<open>An echoed header, a sub-response of the upstream array, and an entry with headers.\<close>

definition header :: "string \<Rightarrow> string \<Rightarrow> pyval" where
  "header n v = PDict [(''name'', PStr n), (''value'', PStr v)]"

definition sub_response :: "int \<Rightarrow> string \<Rightarrow> pyval" where
  "sub_response code body = PDict [(''code'', PInt code), (''body'', PStr body)]"

definition entry_with_headers :: "nat \<Rightarrow> string \<Rightarrow> pyval list \<Rightarrow> result_item_h" where
  "entry_with_headers i url hs =
     \<lparr> request_index = i, requested_url = PStr url, status_code = PInt 200,
       data = PDict [(''data'', PList [])], error = PNone, headers = PList hs \<rparr>"

text \<open>A two-element answer to the two paths \<open>example_urls\<close>, and what the two copies make of it.\<close>

definition example_urls :: "string list" where
  "example_urls = [''/me'', ''act_1/ads'']"

definition example_answer :: response where
  "example_answer = Json (PList [sub_response 200 body_ok, sub_response 400 body_err])"

definition example_request :: "string list \<Rightarrow> request" where
  "example_request urls =
     \<lparr> api_url = ''https://graph.facebook.com/v23.0'', access_token = ''EAAB'',
       batch = map (\<lambda>u. (''GET'', u)) urls, include_headers = ''true'' \<rparr>"

definition example_entries :: "result_item list" where
  "example_entries =
     [\<lparr> request_index = 0, requested_url = PStr ''me'', status_code = PInt 200,
        data = PDict [(''data'', PList [])], error = PNone \<rparr>,
      \<lparr> request_index = 1, requested_url = PStr ''act_1/ads'', status_code = PInt 400,
        data = PNone,
        error = PDict [(''message'', PStr ''Unsupported get request.''), (''code'', PInt 100)] \<rparr>]"

definition example_entries_t2 :: "result_item_h list" where
  "example_entries_t2 =
     [\<lparr> request_index = 0, requested_url = PStr ''me'', status_code = PInt 200,
        data = PDict [(''data'', PList [])], error = PNone, headers = PList [] \<rparr>,
      \<lparr> request_index = 1, requested_url = PStr ''act_1/ads'', status_code = PInt 400,
        data = PNone,
        error = PDict [(''message'', PStr ''Unsupported get request.''), (''code'', PInt 100)],
        headers = PList [] \<rparr>]"

text \<open>Two entries for the same account, each with a throttle header.\<close>

definition two_throttled :: "result_item_h list" where
  "two_throttled =
     [entry_with_headers 0 ''act_1/insights''
        [header ''X-FB-Ads-Insights-Throttle'' throttle_10_50],
      entry_with_headers 1 ''act_1/ads''
        [header ''x-fb-ads-insights-throttle'' throttle_25_10]]"

text \<open>
  Two entries again, the first with a throttle header that is JSON but not an object.
\<close>

definition broken_then_25 :: "result_item_h list" where
  "broken_then_25 =
     [entry_with_headers 0 ''act_1/insights''
        [header ''x-fb-ads-insights-throttle'' ''[]''],
      entry_with_headers 1 ''act_1/ads''
        [header ''x-fb-ads-insights-throttle'' throttle_25_10]]"

section \<open>Numbers\<close>

text \<open>
  \<open>int_to_double\<close> rounds to 53 bits, ties to even, and overflows where \<^verbatim>\<open>float\<close>
  does: \<open>2 ^ 53 + 1\<close> becomes \<open>2 ^ 53\<close>, \<open>2 ^ 53 + 3\<close> becomes \<open>2 ^ 53 + 4\<close>, and
  \<open>10 ^ 309\<close> has no double.
\<close>

lemma int_to_double_examples:
  "int_to_double 25 = Some 25"
  "int_to_double 9007199254740993 = Some 9007199254740992"
  "int_to_double 9007199254740995 = Some 9007199254740996"
  "int_to_double (- 9007199254740993) = Some (- 9007199254740992)"
  "int_to_double (10 ^ 309) = None"
  by code_simp+

section \<open>Properties of the batch sender\<close>

subsection \<open>Strings and the url loop\<close>

text \<open>\<open>contains\<close> is the substring test.\<close>

lemma startswith_iff: "startswith s p \<longleftrightarrow> (\<exists>r. s = p @ r)"
  unfolding startswith_def
  by (metis append_eq_conv_conj append_take_drop_id)

lemma contains_iff: "contains needle hay \<longleftrightarrow> (\<exists>p s. hay = p @ needle @ s)"
proof (induction hay)
  case Nil
  then show ?case by auto
next
  case (Cons c cs)
  have "(\<exists>p s. c # cs = p @ needle @ s)
          \<longleftrightarrow> (\<exists>s. c # cs = needle @ s) \<or> (\<exists>p s. cs = p @ needle @ s)"
  proof
    assume "\<exists>p s. c # cs = p @ needle @ s"
    then obtain p s where ps: "c # cs = p @ needle @ s" by blast
    show "(\<exists>s. c # cs = needle @ s) \<or> (\<exists>p s. cs = p @ needle @ s)"
    proof (cases p)
      case Nil
      with ps show ?thesis by auto
    next
      case (Cons a p')
      with ps have "cs = p' @ needle @ s" by simp
      then show ?thesis by blast
    qed
  next
    assume "(\<exists>s. c # cs = needle @ s) \<or> (\<exists>p s. cs = p @ needle @ s)"
    then show "\<exists>p s. c # cs = p @ needle @ s"
    proof
      assume "\<exists>s. c # cs = needle @ s"
      then obtain s where "c # cs = [] @ needle @ s" by auto
      then show ?thesis by blast
    next
      assume "\<exists>p s. cs = p @ needle @ s"
      then obtain p s where "c # cs = (c # p) @ needle @ s" by auto
      then show ?thesis by blast
    qed
  qed
  with Cons startswith_iff [of "c # cs" needle] show ?case by simp
qed

lemma normalize_urls_map:
  "normalize_urls v urls = Inr us \<Longrightarrow> us = map lstrip_slash urls"
  by (induction urls arbitrary: us) (auto simp: Let_def split: if_splits sum.splits)

lemma first_segment_startswith_v:
  assumes "first_segment u = API_VERSION"
  shows "startswith u ''v''"
proof (cases u)
  case Nil
  with assms show ?thesis by (simp add: first_segment_def API_VERSION_def)
next
  case (Cons c cs)
  with assms show ?thesis
    by (auto simp: first_segment_def API_VERSION_def startswith_def split: if_splits)
qed

lemma normalize_urls_rejects_version:
  "u \<in> set urls \<Longrightarrow> first_segment (lstrip_slash u) = API_VERSION
     \<Longrightarrow> normalize_urls API_VERSION urls = Inl ValueError"
proof (induction urls)
  case Nil
  then show ?case by simp
next
  case (Cons x xs)
  show ?case
  proof (cases "x = u")
    case True
    with Cons.prems first_segment_startswith_v [of "lstrip_slash u"] show ?thesis
      by (simp add: Let_def)
  next
    case False
    with Cons have "normalize_urls API_VERSION xs = Inl ValueError" by simp
    then show ?thesis by (simp add: Let_def)
  qed
qed

subsection \<open>The loop over the upstream array\<close>

lemma process_items_length:
  "process_items loads us k items = Inr rs \<Longrightarrow> length rs = length items"
  by (induction items arbitrary: k rs) (auto split: sum.splits)

lemma process_items_nth:
  "process_items loads us k items = Inr rs \<Longrightarrow> i < length items
     \<Longrightarrow> process_item loads us (k + i) (items ! i) = Inr (rs ! i)"
proof (induction items arbitrary: k rs i)
  case Nil
  then show ?case by simp
next
  case (Cons item items)
  from Cons.prems(1) obtain r rs' where
    r: "process_item loads us k item = Inr r" and
    rs': "process_items loads us (Suc k) items = Inr rs'" and
    rs: "rs = r # rs'"
    by (auto split: sum.splits)
  show ?case
  proof (cases i)
    case 0
    with r rs show ?thesis by simp
  next
    case (Suc j)
    with Cons.prems(2) have "j < length items" by simp
    from Cons.IH [OF rs' this] Suc rs show ?thesis by simp
  qed
qed

lemma process_items_t2_length:
  "process_items_t2 loads us k items = Inr rs \<Longrightarrow> length rs = length items"
  by (induction items arbitrary: k rs) (auto split: sum.splits)

lemma process_items_t2_nth:
  "process_items_t2 loads us k items = Inr rs \<Longrightarrow> i < length items
     \<Longrightarrow> process_item_t2 loads us (k + i) (items ! i) = Inr (rs ! i)"
proof (induction items arbitrary: k rs i)
  case Nil
  then show ?case by simp
next
  case (Cons item items)
  from Cons.prems(1) obtain r rs' where
    r: "process_item_t2 loads us k item = Inr r" and
    rs': "process_items_t2 loads us (Suc k) items = Inr rs'" and
    rs: "rs = r # rs'"
    by (auto split: sum.splits)
  show ?case
  proof (cases i)
    case 0
    with r rs show ?thesis by simp
  next
    case (Suc j)
    with Cons.prems(2) have "j < length items" by simp
    from Cons.IH [OF rs' this] Suc rs show ?thesis by simp
  qed
qed

text \<open>Every entry of a successful run of the loop is the entry of some element.\<close>

lemma process_items_all:
  "process_items loads us k items = Inr rs \<Longrightarrow> r \<in> set rs
     \<Longrightarrow> \<exists>i item. process_item loads us i item = Inr r"
proof (induction items arbitrary: k rs)
  case Nil
  then show ?case by simp
next
  case (Cons item items)
  from Cons.prems(1) obtain r0 rs' where
    r0: "process_item loads us k item = Inr r0" and
    rs': "process_items loads us (Suc k) items = Inr rs'" and
    rs: "rs = r0 # rs'"
    by (auto split: sum.splits)
  from Cons.prems(2) rs have "r = r0 \<or> r \<in> set rs'" by simp
  then show ?case
  proof
    assume "r = r0"
    with r0 show ?thesis by blast
  next
    assume "r \<in> set rs'"
    from Cons.IH [OF rs' this] show ?thesis .
  qed
qed

lemma process_items_t2_all:
  "process_items_t2 loads us k items = Inr rs \<Longrightarrow> r \<in> set rs
     \<Longrightarrow> \<exists>i item. process_item_t2 loads us i item = Inr r"
proof (induction items arbitrary: k rs)
  case Nil
  then show ?case by simp
next
  case (Cons item items)
  from Cons.prems(1) obtain r0 rs' where
    r0: "process_item_t2 loads us k item = Inr r0" and
    rs': "process_items_t2 loads us (Suc k) items = Inr rs'" and
    rs: "rs = r0 # rs'"
    by (auto split: sum.splits)
  from Cons.prems(2) rs have "r = r0 \<or> r \<in> set rs'" by simp
  then show ?case
  proof
    assume "r = r0"
    with r0 show ?thesis by blast
  next
    assume "r \<in> set rs'"
    from Cons.IH [OF rs' this] show ?thesis .
  qed
qed

text \<open>A successful call had a list as its answer, and its entries are those of the loop.\<close>

lemma process_response_Inr:
  "process_response loads us resp = Inr rs
     \<Longrightarrow> \<exists>items. resp = Json (PList items) \<and> process_items loads us 0 items = Inr rs"
  by (auto simp: process_response_def split: response.splits pyval.splits option.splits)

lemma process_response_t2_Inr:
  "process_response_t2 loads us resp = Inr rs
     \<Longrightarrow> \<exists>items. resp = Json (PList items) \<and> process_items_t2 loads us 0 items = Inr rs"
  by (auto simp: process_response_t2_def split: response.splits pyval.splits)

lemma send_Inr:
  "fst (send_batch_to_facebook loads resp urls tok ver) = Inr rs
     \<Longrightarrow> \<exists>items. resp = Json (PList items)
           \<and> process_items loads (map lstrip_slash urls) 0 items = Inr rs"
  by (auto simp: send_batch_to_facebook_def split: if_splits sum.splits
      dest!: process_response_Inr normalize_urls_map)

lemma send_t2_Inr:
  "fst (send_batch_to_facebook_t2 loads resp urls tok ver) = Inr rs
     \<Longrightarrow> \<exists>items. resp = Json (PList items)
           \<and> process_items_t2 loads (map lstrip_slash urls) 0 items = Inr rs"
  by (auto simp: send_batch_to_facebook_t2_def Let_def split: if_splits
      dest!: process_response_t2_Inr)

subsection \<open>One entry\<close>

lemma process_item_index:
  "process_item loads us i item = Inr r \<Longrightarrow>
     request_index r = i \<and> requested_url r = (if i < length us then PStr (us ! i) else PNone)"
  by (auto simp: process_item_def Let_def
      split: if_splits sum.splits py_error.splits pyval.splits)

lemma process_item_t2_index:
  "process_item_t2 loads us i item = Inr r \<Longrightarrow>
     i < length us \<and> request_index r = i \<and> requested_url r = PStr (us ! i)"
  by (auto simp: process_item_t2_def Let_def split: if_splits sum.splits)

lemma process_item_exclusive:
  "process_item loads us i item = Inr r \<Longrightarrow> data r = PNone \<or> error r = PNone"
  by (auto simp: process_item_def Let_def
      split: if_splits sum.splits py_error.splits pyval.splits)

lemma process_item_t2_exclusive:
  "process_item_t2 loads us i item = Inr r \<Longrightarrow> data r = PNone \<or> error r = PNone"
  by (auto simp: process_item_t2_def Let_def split: if_splits sum.splits)

lemma error_or_whole_eq:
  "error_or_whole b =
     (case b of
        PDict kvs \<Rightarrow> (case map_of kvs ''error'' of Some e \<Rightarrow> e | None \<Rightarrow> b)
      | _ \<Rightarrow> b)"
  by (cases b) auto

lemma process_item_valid_body:
  assumes "map_of d ''code'' = Some code" "map_of d ''body'' = Some (PStr s)" "s \<noteq> []"
    and "loads s = Some b"
    and "process_item loads us i (PDict d) = Inr r"
  shows "status_code r = code \<and>
         (if is_200 code then data r = b \<and> error r = PNone
          else error r = error_or_whole b \<and> data r = PNone)"
  using assms by (auto simp: process_item_def Let_def)

lemma process_item_t2_valid_body:
  assumes "map_of d ''code'' = Some code" "map_of d ''body'' = Some (PStr s)"
    and "loads s = Some b"
    and "process_item_t2 loads us i (PDict d) = Inr r"
  shows "status_code r = code \<and>
         (if is_200 code then data r = b \<and> error r = PNone
          else error r = error_or_whole b \<and> data r = PNone)"
proof -
  from assms(1) have "d \<noteq> []" by auto
  with assms show ?thesis
    by (cases b) (auto simp: process_item_t2_def Let_def split: if_splits)
qed

text \<open>
  The copy in \<^verbatim>\<open>main.py\<close> turns a null element into an entry with the null text and
  without a status code, wherever it stands.
\<close>

lemma main_null_element:
  "process_item loads us i PNone =
     Inr \<lparr> request_index = i,
           requested_url = (if i < length us then PStr (us ! i) else PNone),
           status_code = PNone, data = PNone, error = PStr null_result_text \<rparr>"
  by (simp add: process_item_def)

subsection \<open>Claims about the sender\<close>

text \<open>
  Claim C9. With an empty path list, or more than 50 paths, or a credential that is empty or
  contains the placeholder \<^verbatim>\<open>YOUR_ACCESS_TOKEN\<close>, both copies of
  \<^verbatim>\<open>send_batch_to_facebook\<close> raise \<^verbatim>\<open>ValueError\<close> (the input error, answered
  with status 400) and hand nothing to the network; with a path count outside 1..50 the
  validator of \<^verbatim>\<open>BatchRequest\<close> raises \<^verbatim>\<open>ValueError\<close> as well.
\<close>

theorem send_rejects_bad_count_or_token:
  "relative_urls = [] \<or> 50 < length relative_urls \<or> token = []
     \<or> contains ''YOUR_ACCESS_TOKEN'' token \<Longrightarrow>
   send_batch_to_facebook loads resp relative_urls token api_version = (Inl ValueError, []) \<and>
   send_batch_to_facebook_t2 loads resp relative_urls token api_version = (Inl ValueError, []) \<and>
   (relative_urls = [] \<or> 50 < length relative_urls
      \<longrightarrow> validate_urls relative_urls = Inl ValueError)"
  by (auto simp: send_batch_to_facebook_def send_batch_to_facebook_t2_def bad_token_def
      bad_count_def validate_urls_def)

text \<open>Claim C9 at an empty path list, and at the placeholder credential.\<close>

theorem send_rejects_bad_count_or_token_witness:
  "send_batch_to_facebook example_loads example_answer [] ''EAAB'' API_VERSION = (Inl ValueError, []) \<and>
   send_batch_to_facebook_t2 example_loads example_answer [] ''EAAB'' API_VERSION = (Inl ValueError, []) \<and>
   validate_urls [] = Inl ValueError \<and>
   contains ''YOUR_ACCESS_TOKEN'' ''<YOUR_ACCESS_TOKEN>'' \<and>
   send_batch_to_facebook example_loads example_answer example_urls ''<YOUR_ACCESS_TOKEN>'' API_VERSION
     = (Inl ValueError, []) \<and>
   send_batch_to_facebook_t2 example_loads example_answer example_urls ''<YOUR_ACCESS_TOKEN>'' API_VERSION
     = (Inl ValueError, [])"
proof -
  have c: "contains ''YOUR_ACCESS_TOKEN'' ''<YOUR_ACCESS_TOKEN>''"
    by (simp add: startswith_def)
  from send_rejects_bad_count_or_token
         [of "[]" "''EAAB''" example_loads example_answer API_VERSION]
       send_rejects_bad_count_or_token
         [of example_urls "''<YOUR_ACCESS_TOKEN>''" example_loads example_answer API_VERSION] c
  show ?thesis by simp
qed

text \<open>
  Claim C4, as amended. When some path, after its leading slashes are stripped, has the
  configured version tag as its first segment, \<^verbatim>\<open>send_batch_to_facebook\<close> of
  \<^verbatim>\<open>main.py\<close> raises \<^verbatim>\<open>ValueError\<close> and makes no outbound call. The copy in
  \<^verbatim>\<open>test2.py\<close> does not look at the version: with a usable credential and 1 to 50 paths
  it always makes the outbound call, for the stripped paths as they are.
\<close>

theorem main_send_rejects_version_prefix:
  "((\<exists>u \<in> set relative_urls. first_segment (lstrip_slash u) = API_VERSION) \<longrightarrow>
      send_batch_to_facebook loads resp relative_urls token API_VERSION = (Inl ValueError, []))
   \<and> (token \<noteq> [] \<and> \<not> contains ''YOUR_ACCESS_TOKEN'' token
        \<and> 1 \<le> length relative_urls \<and> length relative_urls \<le> 50 \<longrightarrow>
      snd (send_batch_to_facebook_t2 loads resp relative_urls token api_version)
        = [build_request api_version token (map lstrip_slash relative_urls)])"
proof (intro conjI impI)
  assume "\<exists>u \<in> set relative_urls. first_segment (lstrip_slash u) = API_VERSION"
  then obtain u where "u \<in> set relative_urls" "first_segment (lstrip_slash u) = API_VERSION"
    by blast
  then have "normalize_urls API_VERSION relative_urls = Inl ValueError"
    by (rule normalize_urls_rejects_version)
  then show "send_batch_to_facebook loads resp relative_urls token API_VERSION
               = (Inl ValueError, [])"
    by (simp add: send_batch_to_facebook_def)
next
  assume "token \<noteq> [] \<and> \<not> contains ''YOUR_ACCESS_TOKEN'' token
        \<and> 1 \<le> length relative_urls \<and> length relative_urls \<le> 50"
  then show "snd (send_batch_to_facebook_t2 loads resp relative_urls token api_version)
        = [build_request api_version token (map lstrip_slash relative_urls)]"
    by (simp add: send_batch_to_facebook_t2_def bad_token_def bad_count_def Let_def)
qed

text \<open>Claim C4 as amended, at the paths \<^verbatim>\<open>act_1/ads\<close> and \<^verbatim>\<open>/v23.0/me\<close>.\<close>

theorem main_send_rejects_version_prefix_witness:
  "first_segment (lstrip_slash ''/v23.0/me'') = API_VERSION \<and>
   send_batch_to_facebook example_loads example_answer [''act_1/ads'', ''/v23.0/me''] ''EAAB''
       API_VERSION = (Inl ValueError, []) \<and>
   snd (send_batch_to_facebook_t2 example_loads example_answer [''act_1/ads'', ''/v23.0/me'']
       ''EAAB'' API_VERSION) = [example_request [''act_1/ads'', ''v23.0/me'']]"
proof -
  have seg: "first_segment (lstrip_slash ''/v23.0/me'') = API_VERSION"
    by (simp add: first_segment_def lstrip_slash_def API_VERSION_def)
  have tok: "\<not> contains ''YOUR_ACCESS_TOKEN'' ''EAAB''"
    by (simp add: startswith_def)
  have req: "build_request API_VERSION ''EAAB'' (map lstrip_slash [''act_1/ads'', ''/v23.0/me''])
               = example_request [''act_1/ads'', ''v23.0/me'']"
    by (simp add: build_request_def example_request_def lstrip_slash_def API_VERSION_def)
  from main_send_rejects_version_prefix
         [of "[''act_1/ads'', ''/v23.0/me'']" example_loads example_answer "''EAAB''" API_VERSION]
       seg tok req
  show ?thesis by simp
qed

text \<open>
  Claim C4 as stated fails for the copy in \<^verbatim>\<open>test2.py\<close>: the path
  \<^verbatim>\<open>v23.0/me\<close> is sent upstream and its answer is returned.
\<close>

theorem t2_send_accepts_version_prefix_counterexample:
  "send_batch_to_facebook_t2 example_loads (Json (PList [sub_response 200 body_ok]))
       [''v23.0/me''] ''EAAB'' API_VERSION
     = (Inr [\<lparr> request_index = 0, requested_url = PStr ''v23.0/me'', status_code = PInt 200,
               data = PDict [(''data'', PList [])], error = PNone, headers = PList [] \<rparr>],
        [example_request [''v23.0/me'']])"
  by code_simp

text \<open>
  Claim C2, as amended. A call that succeeds had a JSON array as its answer and returns one
  entry per element of that array, in order: the entry at position \<open>i\<close> has index \<open>i\<close> and
  the stripped path submitted at position \<open>i\<close>. So the entries are as many as the submitted
  paths exactly when the array is. In \<^verbatim>\<open>main.py\<close> an entry beyond the submitted paths
  has no path; in \<^verbatim>\<open>test2.py\<close> a successful call never has more entries than paths.
\<close>

theorem send_one_entry_per_upstream_element:
  "(fst (send_batch_to_facebook loads resp relative_urls token api_version) = Inr rs \<longrightarrow>
      (\<exists>items. resp = Json (PList items) \<and> length rs = length items) \<and>
      (\<forall>i < length rs.
          request_index (rs ! i) = i \<and>
          requested_url (rs ! i) =
            (if i < length relative_urls then PStr (lstrip_slash (relative_urls ! i)) else PNone)))
   \<and> (fst (send_batch_to_facebook_t2 loads resp relative_urls token api_version) = Inr rs2 \<longrightarrow>
      (\<exists>items. resp = Json (PList items) \<and> length rs2 = length items) \<and>
      length rs2 \<le> length relative_urls \<and>
      (\<forall>i < length rs2.
          request_index (rs2 ! i) = i \<and>
          requested_url (rs2 ! i) = PStr (lstrip_slash (relative_urls ! i))))"
proof (intro conjI impI)
  assume "fst (send_batch_to_facebook loads resp relative_urls token api_version) = Inr rs"
  then obtain items where resp: "resp = Json (PList items)"
    and run: "process_items loads (map lstrip_slash relative_urls) 0 items = Inr rs"
    by (auto dest: send_Inr)
  from run have len: "length rs = length items" by (rule process_items_length)
  with resp show "\<exists>items. resp = Json (PList items) \<and> length rs = length items" by blast
  show "\<forall>i < length rs.
          request_index (rs ! i) = i \<and>
          requested_url (rs ! i) =
            (if i < length relative_urls then PStr (lstrip_slash (relative_urls ! i)) else PNone)"
  proof (intro allI impI)
    fix i assume "i < length rs"
    with len have "i < length items" by simp
    from process_items_nth [OF run this]
    have "process_item loads (map lstrip_slash relative_urls) i (items ! i) = Inr (rs ! i)"
      by simp
    from process_item_index [OF this]
    show "request_index (rs ! i) = i \<and>
          requested_url (rs ! i) =
            (if i < length relative_urls then PStr (lstrip_slash (relative_urls ! i)) else PNone)"
      by simp
  qed
next
  assume "fst (send_batch_to_facebook_t2 loads resp relative_urls token api_version) = Inr rs2"
  then obtain items where resp: "resp = Json (PList items)"
    and run: "process_items_t2 loads (map lstrip_slash relative_urls) 0 items = Inr rs2"
    by (auto dest: send_t2_Inr)
  from run have len: "length rs2 = length items" by (rule process_items_t2_length)
  with resp show "\<exists>items. resp = Json (PList items) \<and> length rs2 = length items" by blast
  have each: "i < length relative_urls \<and> request_index (rs2 ! i) = i \<and>
          requested_url (rs2 ! i) = PStr (lstrip_slash (relative_urls ! i))"
    if "i < length rs2" for i
  proof -
    from that len have "i < length items" by simp
    from process_items_t2_nth [OF run this]
    have "process_item_t2 loads (map lstrip_slash relative_urls) i (items ! i) = Inr (rs2 ! i)"
      by simp
    from process_item_t2_index [OF this] show ?thesis by simp
  qed
  then show "\<forall>i < length rs2.
          request_index (rs2 ! i) = i \<and>
          requested_url (rs2 ! i) = PStr (lstrip_slash (relative_urls ! i))"
    by blast
  show "length rs2 \<le> length relative_urls"
  proof (cases rs2)
    case Nil
    then show ?thesis by simp
  next
    case (Cons r rs')
    then have last: "length rs2 - 1 < length rs2" by simp
    from each [OF last] have "length rs2 - 1 < length relative_urls" by simp
    with last show ?thesis by arith
  qed
qed

text \<open>Claim C2 as amended, at two paths answered by an array of two.\<close>

theorem send_one_entry_per_upstream_element_witness:
  "fst (send_batch_to_facebook example_loads example_answer example_urls ''EAAB'' API_VERSION)
     = Inr example_entries \<and>
   fst (send_batch_to_facebook_t2 example_loads example_answer example_urls ''EAAB'' API_VERSION)
     = Inr example_entries_t2 \<and>
   example_answer = Json (PList [sub_response 200 body_ok, sub_response 400 body_err]) \<and>
   length example_entries = 2 \<and> length example_entries_t2 = 2 \<and>
   request_index (example_entries ! 0) = 0 \<and>
   requested_url (example_entries ! 0) = PStr (lstrip_slash (example_urls ! 0)) \<and>
   request_index (example_entries ! 1) = 1 \<and>
   requested_url (example_entries ! 1) = PStr (lstrip_slash (example_urls ! 1)) \<and>
   request_index (example_entries_t2 ! 0) = 0 \<and>
   requested_url (example_entries_t2 ! 0) = PStr (lstrip_slash (example_urls ! 0)) \<and>
   request_index (example_entries_t2 ! 1) = 1 \<and>
   requested_url (example_entries_t2 ! 1) = PStr (lstrip_slash (example_urls ! 1))"
proof -
  have r1: "fst (send_batch_to_facebook example_loads example_answer example_urls ''EAAB''
                   API_VERSION) = Inr example_entries"
    by code_simp
  have r2: "fst (send_batch_to_facebook_t2 example_loads example_answer example_urls ''EAAB''
                   API_VERSION) = Inr example_entries_t2"
    by code_simp
  have l: "length example_entries = 2" "length example_entries_t2 = 2"
          "length example_urls = 2"
    by (simp_all add: example_entries_def example_entries_t2_def example_urls_def)
  note inst = send_one_entry_per_upstream_element
         [of example_loads example_answer example_urls "''EAAB''" API_VERSION
             example_entries example_entries_t2]
  from inst r1 l have a: "\<forall>i < 2.
      request_index (example_entries ! i) = i \<and>
      requested_url (example_entries ! i) =
        (if i < 2 then PStr (lstrip_slash (example_urls ! i)) else PNone)"
    by simp
  from inst r2 l have b: "\<forall>i < 2.
      request_index (example_entries_t2 ! i) = i \<and>
      requested_url (example_entries_t2 ! i) = PStr (lstrip_slash (example_urls ! i))"
    by simp
  from a have a0: "request_index (example_entries ! 0) = 0 \<and>
      requested_url (example_entries ! 0) = PStr (lstrip_slash (example_urls ! 0))"
    by auto
  from a have a1: "request_index (example_entries ! 1) = 1 \<and>
      requested_url (example_entries ! 1) = PStr (lstrip_slash (example_urls ! 1))"
    by auto
  from b have b0: "request_index (example_entries_t2 ! 0) = 0 \<and>
      requested_url (example_entries_t2 ! 0) = PStr (lstrip_slash (example_urls ! 0))"
    by auto
  from b have b1: "request_index (example_entries_t2 ! 1) = 1 \<and>
      requested_url (example_entries_t2 ! 1) = PStr (lstrip_slash (example_urls ! 1))"
    by auto
  from r1 r2 l a0 a1 b0 b1 show ?thesis by (simp add: example_answer_def)
qed

text \<open>
  Claim C2 as stated fails: one path, answered by an array of two null elements, gives two
  entries and no error.
\<close>

theorem send_length_follows_upstream_counterexample:
  "fst (send_batch_to_facebook example_loads (Json (PList [PNone, PNone])) [''me''] ''EAAB''
          API_VERSION)
     = Inr [\<lparr> request_index = 0, requested_url = PStr ''me'', status_code = PNone,
              data = PNone, error = PStr null_result_text \<rparr>,
            \<lparr> request_index = 1, requested_url = PNone, status_code = PNone,
              data = PNone, error = PStr null_result_text \<rparr>]"
  by code_simp

text \<open>
  Claim C5 at the copy in \<^verbatim>\<open>test2.py\<close>: one path, answered by an array whose only
  element is null. The claim asks for an entry with the null text and no status code; the
  call is made, and then the whole function ends with \<^verbatim>\<open>AttributeError\<close>, because
  \<^verbatim>\<open>item.get("code")\<close> is evaluated before \<^verbatim>\<open>if item\<close>. (The copy in
  \<^verbatim>\<open>main.py\<close> tests for null first, lemma \<open>main_null_element\<close>.)
\<close>

theorem t2_null_element_fails_whole_call:
  "send_batch_to_facebook_t2 example_loads (Json (PList [PNone])) [''me''] ''EAAB'' API_VERSION
     = (Inl AttributeError, [example_request [''me'']])"
  by code_simp

text \<open>
  In \<^verbatim>\<open>main.py\<close>, an element that is an object with a status code and a body text that
  decodes gives, whenever the call returns, an entry with that status code; with a code
  equal to 200 its \<open>data\<close> is the decoded body and its \<open>error\<close> is absent, with any other
  code its \<open>error\<close> is the \<open>error\<close> member of the decoded body if the body is an object that
  has one, else the whole decoded body, and its \<open>data\<close> is absent.
\<close>

lemma main_status_decides_data_or_error:
  assumes "resp = Json (PList items)" and "i < length items" and "items ! i = PDict d"
    and "map_of d ''code'' = Some code"
    and "map_of d ''body'' = Some (PStr s)" and "s \<noteq> []" and "loads s = Some b"
    and ok: "fst (send_batch_to_facebook loads resp relative_urls token api_version) = Inr rs"
  shows "status_code (rs ! i) = code \<and>
         (if is_200 code then data (rs ! i) = b \<and> error (rs ! i) = PNone
          else error (rs ! i) =
                 (case b of
                    PDict kvs \<Rightarrow> (case map_of kvs ''error'' of Some e \<Rightarrow> e | None \<Rightarrow> b)
                  | _ \<Rightarrow> b)
               \<and> data (rs ! i) = PNone)"
proof -
  from ok assms(1)
  have run: "process_items loads (map lstrip_slash relative_urls) 0 items = Inr rs"
    by (auto dest: send_Inr)
  from process_items_nth [OF run assms(2)] assms(3)
  have "process_item loads (map lstrip_slash relative_urls) i (PDict d) = Inr (rs ! i)"
    by simp
  from process_item_valid_body [OF assms(4-7) this] show ?thesis
    unfolding error_or_whole_eq .
qed

text \<open>
  In \<^verbatim>\<open>test2.py\<close> the same holds as long as the decoded body is an object. With a code
  other than 200 and a decoded body that is not an object, \<^verbatim>\<open>body_json.get\<close> raises
  \<^verbatim>\<open>AttributeError\<close>, which the \<^verbatim>\<open>except json.JSONDecodeError\<close> does not catch.
\<close>

lemma t2_non_object_body_raises:
  assumes "i < length us" and "map_of d ''code'' = Some code" and "\<not> is_200 code"
    and "map_of d ''body'' = Some (PStr s)" and "loads s = Some b"
    and "\<And>kvs. b \<noteq> PDict kvs"
  shows "process_item_t2 loads us i (PDict d) = Inl AttributeError"
proof -
  from assms(2) have "d \<noteq> []" by auto
  moreover from assms(6) have "dict_get b ''error'' b = Inl AttributeError"
    by (cases b) auto
  ultimately show ?thesis
    using assms(1-5) by (simp add: process_item_t2_def Let_def)
qed

text \<open>
  Claim C7 at the copy in \<^verbatim>\<open>test2.py\<close>: one path, answered by one element with the
  status code 400 and the body \<^verbatim>\<open>[]\<close>, which is valid JSON. The claim asks for an entry
  whose \<open>error\<close> is the whole decoded body and whose \<open>data\<close> is absent; the call is made and
  then the whole function ends with \<^verbatim>\<open>AttributeError\<close>. The copy in \<^verbatim>\<open>main.py\<close>
  tests \<^verbatim>\<open>isinstance(body_json, dict)\<close> first and returns that entry.
\<close>

theorem t2_non_object_error_body_fails_whole_call:
  "send_batch_to_facebook_t2 example_loads (Json (PList [sub_response 400 ''[]''])) [''me'']
       ''EAAB'' API_VERSION
     = (Inl AttributeError, [example_request [''me'']]) \<and>
   fst (send_batch_to_facebook example_loads (Json (PList [sub_response 400 ''[]''])) [''me'']
          ''EAAB'' API_VERSION)
     = Inr [\<lparr> request_index = 0, requested_url = PStr ''me'', status_code = PInt 400,
              data = PNone, error = PList [] \<rparr>]"
  by code_simp

text \<open>
  Claim C10. In every entry that a successful call returns, in \<^verbatim>\<open>main.py\<close> and in
  \<^verbatim>\<open>test2.py\<close>, \<open>data\<close> and \<open>error\<close> are never both set: one of them is
  \<^verbatim>\<open>None\<close>.
\<close>

theorem data_and_error_never_both:
  "(fst (send_batch_to_facebook loads resp relative_urls token api_version) = Inr rs \<longrightarrow>
      (\<forall>r \<in> set rs. data r = PNone \<or> error r = PNone))
   \<and> (fst (send_batch_to_facebook_t2 loads resp relative_urls token api_version) = Inr rs2 \<longrightarrow>
      (\<forall>r \<in> set rs2. data r = PNone \<or> error r = PNone))"
proof (intro conjI impI ballI)
  fix r
  assume "fst (send_batch_to_facebook loads resp relative_urls token api_version) = Inr rs"
    and "r \<in> set rs"
  then obtain i item where
    "process_item loads (map lstrip_slash relative_urls) i item = Inr r"
    by (auto dest!: send_Inr dest: process_items_all)
  then show "data r = PNone \<or> error r = PNone" by (rule process_item_exclusive)
next
  fix r
  assume "fst (send_batch_to_facebook_t2 loads resp relative_urls token api_version) = Inr rs2"
    and "r \<in> set rs2"
  then obtain i item where
    "process_item_t2 loads (map lstrip_slash relative_urls) i item = Inr r"
    by (auto dest!: send_t2_Inr dest: process_items_t2_all)
  then show "data r = PNone \<or> error r = PNone" by (rule process_item_t2_exclusive)
qed

text \<open>Claim C10 at the two-element answer.\<close>

theorem data_and_error_never_both_witness:
  "fst (send_batch_to_facebook example_loads example_answer example_urls ''EAAB'' API_VERSION)
     = Inr example_entries \<and>
   fst (send_batch_to_facebook_t2 example_loads example_answer example_urls ''EAAB'' API_VERSION)
     = Inr example_entries_t2 \<and>
   error (example_entries ! 0) = PNone \<and> data (example_entries ! 1) = PNone \<and>
   error (example_entries_t2 ! 0) = PNone \<and> data (example_entries_t2 ! 1) = PNone"
proof -
  have r1: "fst (send_batch_to_facebook example_loads example_answer example_urls ''EAAB''
                   API_VERSION) = Inr example_entries"
    by code_simp
  have r2: "fst (send_batch_to_facebook_t2 example_loads example_answer example_urls ''EAAB''
                   API_VERSION) = Inr example_entries_t2"
    by code_simp
  from data_and_error_never_both
         [of example_loads example_answer example_urls "''EAAB''" API_VERSION
             example_entries example_entries_t2] r1 r2
  have "\<forall>r \<in> set example_entries. data r = PNone \<or> error r = PNone"
       "\<forall>r \<in> set example_entries_t2. data r = PNone \<or> error r = PNone"
    by simp_all
  then have "error (example_entries ! 0) = PNone \<and> data (example_entries ! 1) = PNone \<and>
    error (example_entries_t2 ! 0) = PNone \<and> data (example_entries_t2 ! 1) = PNone"
    by (simp add: example_entries_def example_entries_t2_def)
  with r1 r2 show ?thesis by simp
qed

section \<open>Properties of the summary\<close>

subsection \<open>One round of the loop against what the result contributes\<close>

text \<open>
  The dict built from the header list holds, under a lower-case name, the value of the last
  header of that name.
\<close>

lemma headers_dict_of_lookup:
  "headers_dict_of hs d = Inr hdict \<Longrightarrow> name \<noteq> [] \<Longrightarrow>
     map_of hdict name =
       (case filter (header_matches name) hs of
          [] \<Rightarrow> map_of d name
        | m # ms \<Rightarrow> Some (header_value (last (m # ms))))"
proof (induction hs arbitrary: d)
  case Nil
  then show ?case by simp
next
  case (Cons h hs)
  from Cons.prems(1) obtain kvs where h: "h = PDict kvs"
    by (cases h) auto
  define n where "n = (case map_of kvs ''name'' of Some v \<Rightarrow> v | None \<Rightarrow> PStr [])"
  from Cons.prems(1) h obtain nm where nm: "n = PStr nm"
    by (cases n) (auto simp: n_def split: option.splits)
  define v where "v = (case map_of kvs ''value'' of Some v \<Rightarrow> v | None \<Rightarrow> PNone)"
  from Cons.prems(1) h nm have rest: "headers_dict_of hs (AList.update (lower nm) v d) = Inr hdict"
    by (simp add: n_def v_def)
  have hv: "header_value h = v" by (simp add: h v_def)
  have hm: "header_matches name h \<longleftrightarrow> lower nm = name"
    using nm Cons.prems(2) by (auto simp: h n_def lower_def split: option.splits pyval.splits)
  note IH = Cons.IH [OF rest Cons.prems(2)]
  show ?case
  proof (cases "filter (header_matches name) hs")
    case Nil
    show ?thesis
    proof (cases "lower nm = name")
      case True
      with IH hm hv Nil show ?thesis by (simp add: update_conv')
    next
      case False
      with IH hm hv Nil show ?thesis by (simp add: update_conv')
    qed
  next
    case (Cons m ms)
    with IH hm hv show ?thesis by simp
  qed
qed

lemma except_pass_Inr:
  "except_pass (s, eo) = Inr s' \<Longrightarrow> s' = s"
  by (auto simp: except_pass_def split: option.splits if_splits)

lemma buc_body_keeps:
  "buc_body loads b st = (st', eo) \<Longrightarrow> fst st' = fst st \<and> fst (snd st') = fst (snd st)"
  by (auto simp: buc_body_def split: prod.splits sum.splits pyval.splits)

lemma summarize_result_headers:
  assumes "summarize_result loads st r = Inr st'" "truthy (headers r)"
  obtains hs hdict where "headers r = PList hs" "headers_dict_of hs [] = Inr hdict"
proof -
  from assms obtain xs hdict where it: "iterate (headers r) = Inr xs"
    and hd: "headers_dict_of xs [] = Inr hdict"
    by (auto simp: summarize_result_def split: sum.splits)
  from assms(2) it have ne: "xs \<noteq> []" by (cases "headers r") auto
  have "\<exists>hs. headers r = PList hs"
  proof (cases "headers r")
    case (PStr s)
    with it ne hd show ?thesis by (cases s) auto
  next
    case (PDict kvs)
    with it ne hd show ?thesis by (cases kvs) auto
  qed (use it in auto)
  with it hd that show ?thesis by auto
qed

lemma not_number_None [simp]: "\<not> is_number PNone"
  by (simp add: is_number_def)

lemma float_of_number_raises: "float_of_number v = Some (Inl e) \<Longrightarrow> e = OverflowError"
  by (cases v) (auto split: option.splits)

lemma throttle_body_effect:
  assumes "except_pass (throttle_body loads tv acc (vals, accs, es)) = Inr st1"
  shows "st1 =
     (case (case tv of PStr s \<Rightarrow> (case loads s of Some (PDict kvs) \<Rightarrow> Some kvs | _ \<Rightarrow> None)
                     | _ \<Rightarrow> None) of
        None \<Rightarrow> (vals, accs, es)
      | Some kvs \<Rightarrow>
          (vals @ (case numeric_field kvs ''app_id_util_pct'' of Some v \<Rightarrow> [v] | None \<Rightarrow> []),
           (case acc of
              None \<Rightarrow> accs
            | Some a \<Rightarrow> (case numeric_field kvs ''acc_id_util_pct'' of
                           Some v \<Rightarrow> AList.update a v accs
                         | None \<Rightarrow> accs)),
           es))"
proof (cases "json_loads loads tv")
  case (Inl e)
  then have e: "e = JSONDecodeError \<or> e = TypeError"
    by (cases tv) (auto split: option.splits)
  from Inl have "(case tv of PStr s \<Rightarrow> (case loads s of Some (PDict kvs) \<Rightarrow> Some kvs | _ \<Rightarrow> None)
                     | _ \<Rightarrow> None) = None"
    by (cases tv) (auto split: option.splits)
  moreover from Inl e assms have "st1 = (vals, accs, es)"
    by (auto simp: throttle_body_def except_pass_def)
  ultimately show ?thesis by simp
next
  case (Inr throttle)
  then obtain s where tv: "tv = PStr s" and ls: "loads s = Some throttle"
    by (cases tv) (auto split: option.splits)
  show ?thesis
  proof (cases throttle)
    case (PDict kvs)
    define a where "a = (case map_of kvs ''app_id_util_pct'' of Some v \<Rightarrow> v | None \<Rightarrow> PNone)"
    define u where "u = (case map_of kvs ''acc_id_util_pct'' of Some v \<Rightarrow> v | None \<Rightarrow> PNone)"
    have na: "numeric_field kvs ''app_id_util_pct''
                = (case float_of_number a of Some (Inr f) \<Rightarrow> Some f | _ \<Rightarrow> None)"
      by (simp add: numeric_field_def a_def split: option.splits)
    have nu: "numeric_field kvs ''acc_id_util_pct''
                = (case float_of_number u of Some (Inr f) \<Rightarrow> Some f | _ \<Rightarrow> None)"
      by (simp add: numeric_field_def u_def split: option.splits)
    have da: "dict_get throttle ''app_id_util_pct'' PNone = Inr a"
      and du: "dict_get throttle ''acc_id_util_pct'' PNone = Inr u"
      by (simp_all add: PDict a_def u_def)
    have dec: "(case tv of PStr s \<Rightarrow> (case loads s of Some (PDict kvs) \<Rightarrow> Some kvs | _ \<Rightarrow> None)
                     | _ \<Rightarrow> None) = Some kvs"
      by (simp add: tv ls PDict)
    from assms Inr da du show ?thesis
      by (cases "float_of_number a"; cases "float_of_number u"; cases acc)
         (auto simp: throttle_body_def except_pass_def Let_def dec na nu
               dest: float_of_number_raises split: sum.splits if_splits)
  qed (use Inr assms in \<open>auto simp: throttle_body_def except_pass_def\<close>)
qed

lemma located_header_falsy:
  "\<not> truthy h \<Longrightarrow> located_header name h = None"
  by (cases h) (auto simp: located_header_def)

lemma summarize_result_step:
  assumes empty: "loads ''{}'' = Some (PDict [])"
    and step: "summarize_result loads (vals, accs, es) r = Inr (vals', accs', es')"
  shows "vals' = vals @ (case observed_app_usage loads r of Some v \<Rightarrow> [v] | None \<Rightarrow> [])
       \<and> accs' = (case observed_account_usage loads r of
                    Some (a, v) \<Rightarrow> AList.update a v accs
                  | None \<Rightarrow> accs)"
proof (cases "truthy (headers r)")
  case False
  with step have "vals' = vals" "accs' = accs" by (auto simp: summarize_result_def)
  moreover from False have "throttle_of loads r = None"
    by (simp add: throttle_of_def located_header_falsy)
  ultimately show ?thesis
    by (simp add: observed_app_usage_def observed_account_usage_def split: option.splits)
next
  case True
  from step True obtain hs hdict where hs: "headers r = PList hs"
    and hdict: "headers_dict_of hs [] = Inr hdict"
    by (rule summarize_result_headers)
  let ?tn = "''x-fb-ads-insights-throttle''"
  let ?tv = "header_or_empty hdict ?tn"
  from headers_dict_of_lookup [OF hdict, of ?tn]
  have look: "map_of hdict ?tn = located_header ?tn (headers r)"
    by (simp add: located_header_def hs split: list.splits)
  from step True hs hdict obtain st1 where
    st1: "except_pass (throttle_body loads ?tv (acc_id_from_url (requested_url r)) (vals, accs, es)) = Inr st1"
    and buc: "except_pass (buc_body loads (header_or_empty hdict ''x-business-use-case-usage'') st1)
                = Inr (vals', accs', es')"
    by (auto simp: summarize_result_def split: sum.splits)
  obtain st2 eo where b2: "buc_body loads (header_or_empty hdict ''x-business-use-case-usage'') st1 = (st2, eo)"
    by (cases "buc_body loads (header_or_empty hdict ''x-business-use-case-usage'') st1")
  from buc b2 have "st2 = (vals', accs', es')" by (auto dest: except_pass_Inr)
  with buc_body_keeps [OF b2] have keep: "fst st1 = vals'" "fst (snd st1) = accs'" by auto
  have dec: "(case ?tv of PStr s \<Rightarrow> (case loads s of Some (PDict kvs) \<Rightarrow> Some kvs | _ \<Rightarrow> None)
                     | _ \<Rightarrow> None)
             = (case throttle_of loads r of Some kvs \<Rightarrow> Some kvs | None \<Rightarrow> Some [])
           \<or> (throttle_of loads r = None \<and>
              (case ?tv of PStr s \<Rightarrow> (case loads s of Some (PDict kvs) \<Rightarrow> Some kvs | _ \<Rightarrow> None)
                     | _ \<Rightarrow> None) = None)"
    using empty look
    by (auto simp: header_or_empty_def throttle_of_def split: option.splits pyval.splits)
  from throttle_body_effect [OF st1] keep dec show ?thesis
    by (auto simp: observed_app_usage_def observed_account_usage_def numeric_field_def
             split: option.splits)
qed

lemma summarize_loop_effect:
  assumes empty: "loads ''{}'' = Some (PDict [])"
  shows "summarize_loop loads (vals, accs, es) rs = Inr (vals', accs', es') \<Longrightarrow>
     vals' = vals @ List.map_filter (observed_app_usage loads) rs \<and>
     map_of accs' a =
       (case account_reports loads a rs of [] \<Rightarrow> map_of accs a | v # vs \<Rightarrow> Some (last (v # vs)))"
proof (induction rs arbitrary: vals accs es)
  case Nil
  then show ?case by (simp add: account_reports_def map_filter_simps)
next
  case (Cons r rs)
  from Cons.prems obtain v1 a1 e1 where
    step: "summarize_result loads (vals, accs, es) r = Inr (v1, a1, e1)" and
    rest: "summarize_loop loads (v1, a1, e1) rs = Inr (vals', accs', es')"
    by (auto split: sum.splits)
  note s = summarize_result_step [OF empty step]
  note IH = Cons.IH [OF rest]
  have vals: "vals' = vals @ List.map_filter (observed_app_usage loads) (r # rs)"
    using s IH by (simp add: map_filter_simps split: option.splits)
  have accs: "map_of accs' a =
       (case account_reports loads a (r # rs) of [] \<Rightarrow> map_of accs a
        | v # vs \<Rightarrow> Some (last (v # vs)))"
  proof (cases "observed_account_usage loads r")
    case None
    with s IH show ?thesis
      by (simp add: account_reports_def map_filter_simps split: list.splits)
  next
    case (Some p)
    obtain b v where p: "p = (b, v)" by (cases p)
    show ?thesis
    proof (cases "b = a")
      case True
      with s IH Some p show ?thesis
        by (cases "account_reports loads a rs")
           (auto simp: account_reports_def map_filter_simps update_conv')
    next
      case False
      with s IH Some p show ?thesis
        by (simp add: account_reports_def map_filter_simps update_conv' split: list.splits)
    qed
  qed
  from vals accs show ?case by simp
qed

lemma summarize_loop_headerless:
  "\<forall>r \<in> set rs. \<not> truthy (headers r) \<Longrightarrow> summarize_loop loads st rs = Inr st"
  by (induction rs) (auto simp: summarize_result_def)

subsection \<open>Floats in the summary\<close>

text \<open>
  \<^verbatim>\<open>max\<close> keeps a NaN that comes first. A percentage that is an \<^verbatim>\<open>int\<close> beyond
  \<open>2 ^ 53\<close> is stored rounded, and one beyond the doubles ends the function with
  \<^verbatim>\<open>OverflowError\<close>, which no \<^verbatim>\<open>except\<close> clause catches.
\<close>

lemma max_keeps_leading_nan:
  "max_or_none [NaN, Finite 10] = Some NaN"
  "max_or_none [Finite 10, NaN] = Some (Finite 10)"
  "max_or_none [Finite 10, Finite 25] = Some (Finite 25)"
  by simp_all

lemma throttle_header_name_lower:
  "lower ''x-fb-ads-insights-throttle'' = ''x-fb-ads-insights-throttle''"
  by code_simp

lemma usage_of_large_int_is_rounded:
  assumes "loads ''{}'' = Some (PDict [])"
    and "loads s = Some (PDict [(''acc_id_util_pct'', PInt 9007199254740993)])"
  shows "summarize_rate_limits_from_batch loads
           [entry_with_headers 0 ''act_1/insights'' [header ''x-fb-ads-insights-throttle'' s]]
         = Inr \<lparr> insights_app_usage = None,
                 insights_account_usages = [(''act_1'', Finite 9007199254740992)],
                 etas = [] \<rparr>"
proof -
  have a: "acc_id_from_url (PStr ''act_1/insights'') = Some ''act_1''" by code_simp
  from assms int_to_double_examples(2) throttle_header_name_lower a show ?thesis
    by (simp add: summarize_rate_limits_from_batch_def summarize_result_def
        entry_with_headers_def header_def header_or_empty_def throttle_body_def buc_body_def
        except_pass_def)
qed

lemma usage_beyond_double_range_raises:
  assumes "loads s = Some (PDict [(''app_id_util_pct'', PInt (10 ^ 309))])"
  shows "summarize_rate_limits_from_batch loads
           [entry_with_headers 0 ''act_1/insights'' [header ''x-fb-ads-insights-throttle'' s]]
         = Inl OverflowError"
  using assms int_to_double_examples(5) throttle_header_name_lower
  by (simp add: summarize_rate_limits_from_batch_def summarize_result_def
      entry_with_headers_def header_def header_or_empty_def throttle_body_def
      except_pass_def)

subsection \<open>The eta values\<close>

text \<open>
  Every value that the loop stores in \<^verbatim>\<open>etas\<close> is a number, so \<open>py_max\<close> always has a
  number as its first argument. And since the key that is read is never the key that is
  written, the value stored for an account after its entries is the maximum of 0 and the
  last entry alone.
\<close>

lemma set_update_subset: "set (AList.update k v al) \<subseteq> insert (k, v) (set al)"
  by (induction al) auto

lemma py_max_numeric: "py_max a b = Inr m \<Longrightarrow> is_number m"
  by (auto simp: py_max_def is_number_def split: option.splits if_splits)

lemma eta_entries_numeric:
  "\<forall>p \<in> set et. is_number (snd p) \<Longrightarrow> eta_entries k es et = (et', eo)
     \<Longrightarrow> \<forall>p \<in> set et'. is_number (snd p)"
proof (induction es arbitrary: et)
  case Nil
  then show ?case by simp
next
  case (Cons entry es)
  show ?case
  proof (cases "dict_get entry ''estimated_time_to_regain_access'' (PInt 0)")
    case (Inl e)
    with Cons.prems show ?thesis by simp
  next
    case (Inr entry_eta)
    show ?thesis
    proof (cases "py_max (case map_of et k of Some v \<Rightarrow> v | None \<Rightarrow> PInt 0) entry_eta")
      case (Inl e)
      with Cons.prems \<open>dict_get entry _ _ = Inr entry_eta\<close> show ?thesis by simp
    next
      case m: (Inr m)
      from m have "is_number m" by (rule py_max_numeric)
      with Cons.prems(1) set_update_subset [of "''act_'' @ k" m et]
      have "\<forall>p \<in> set (AList.update (''act_'' @ k) m et). is_number (snd p)" by auto
      from Cons.IH [OF this] Cons.prems(2) Inr m show ?thesis by simp
    qed
  qed
qed

lemma buc_items_numeric:
  "\<forall>p \<in> set et. is_number (snd p) \<Longrightarrow> buc_items kvs et = (et', eo)
     \<Longrightarrow> \<forall>p \<in> set et'. is_number (snd p)"
proof (induction kvs et arbitrary: et' eo rule: buc_items.induct)
  case (1 et)
  then show ?case by simp
next
  case (2 buc_acc_id entries rest et)
  obtain e1 o1 where ee: "eta_entries buc_acc_id entries et = (e1, o1)"
    by (cases "eta_entries buc_acc_id entries et")
  from eta_entries_numeric [OF "2.prems"(1) ee]
  have n1: "\<forall>p \<in> set e1. is_number (snd p)" .
  show ?case
  proof (cases o1)
    case None
    with "2.IH" [OF ee [symmetric] _ n1] ee "2.prems"(2) show ?thesis by simp
  next
    case (Some e)
    with ee "2.prems"(2) n1 show ?thesis by simp
  qed
qed (simp_all)

lemma throttle_body_keeps_etas:
  "throttle_body loads tv acc (vals, accs, es) = (st', eo) \<Longrightarrow> snd (snd st') = es"
  by (auto simp: throttle_body_def Let_def split: sum.splits option.splits)

lemma buc_body_numeric:
  assumes "\<forall>p \<in> set es. is_number (snd p)"
    and "buc_body loads bv (vals, accs, es) = ((vals', accs', es'), eo)"
  shows "\<forall>p \<in> set es'. is_number (snd p)"
proof (cases "json_loads loads bv")
  case (Inl e)
  with assms show ?thesis by (simp add: buc_body_def)
next
  case (Inr buc)
  show ?thesis
  proof (cases buc)
    case (PDict kvs)
    obtain e1 o1 where b: "buc_items kvs es = (e1, o1)" by (cases "buc_items kvs es")
    with assms(2) Inr PDict have "es' = e1" by (simp add: buc_body_def)
    with buc_items_numeric [OF assms(1) b] show ?thesis by simp
  qed (use assms Inr in \<open>auto simp: buc_body_def\<close>)
qed

lemma summarize_result_numeric:
  assumes "\<forall>p \<in> set es. is_number (snd p)"
    and "summarize_result loads (vals, accs, es) r = Inr (vals', accs', es')"
  shows "\<forall>p \<in> set es'. is_number (snd p)"
proof (cases "truthy (headers r)")
  case False
  with assms show ?thesis by (simp add: summarize_result_def)
next
  case True
  with assms(2) obtain hdict st1 where
    st1: "except_pass (throttle_body loads (header_or_empty hdict ''x-fb-ads-insights-throttle'')
            (acc_id_from_url (requested_url r)) (vals, accs, es)) = Inr st1"
    and buc: "except_pass (buc_body loads (header_or_empty hdict ''x-business-use-case-usage'') st1)
                = Inr (vals', accs', es')"
    by (auto simp: summarize_result_def split: sum.splits)
  obtain t eo where t: "throttle_body loads (header_or_empty hdict ''x-fb-ads-insights-throttle'')
            (acc_id_from_url (requested_url r)) (vals, accs, es) = (t, eo)"
    by (cases "throttle_body loads (header_or_empty hdict ''x-fb-ads-insights-throttle'')
            (acc_id_from_url (requested_url r)) (vals, accs, es)")
  with st1 have "st1 = t" by (auto dest: except_pass_Inr)
  with throttle_body_keeps_etas [OF t] obtain v1 a1 where s1: "st1 = (v1, a1, es)"
    by (cases st1) auto
  obtain b bo where b: "buc_body loads (header_or_empty hdict ''x-business-use-case-usage'')
            (v1, a1, es) = (b, bo)"
    by (cases "buc_body loads (header_or_empty hdict ''x-business-use-case-usage'') (v1, a1, es)")
  with buc s1 have "b = (vals', accs', es')" by (auto dest: except_pass_Inr)
  with b buc_body_numeric [OF assms(1)] show ?thesis by blast
qed

lemma summarize_loop_numeric:
  "\<forall>p \<in> set es. is_number (snd p)
     \<Longrightarrow> summarize_loop loads (vals, accs, es) rs = Inr (vals', accs', es')
     \<Longrightarrow> \<forall>p \<in> set es'. is_number (snd p)"
proof (induction rs arbitrary: vals accs es)
  case Nil
  then show ?case by simp
next
  case (Cons r rs)
  from Cons.prems(2) obtain v1 a1 e1 where
    step: "summarize_result loads (vals, accs, es) r = Inr (v1, a1, e1)" and
    rest: "summarize_loop loads (v1, a1, e1) rs = Inr (vals', accs', es')"
    by (auto split: sum.splits)
  from summarize_result_numeric [OF Cons.prems(1) step] rest show ?case
    by (rule Cons.IH)
qed

lemma etas_numeric:
  "summarize_rate_limits_from_batch loads results = Inr s
     \<Longrightarrow> \<forall>p \<in> set (etas s). is_number (snd p)"
proof -
  assume "summarize_rate_limits_from_batch loads results = Inr s"
  then obtain vals accs es where
    "summarize_loop loads ([], [], []) results = Inr (vals, accs, es)" "etas s = es"
    by (auto simp: summarize_rate_limits_from_batch_def split: sum.splits)
  with summarize_loop_numeric [of "[]" loads "[]" "[]" results vals accs es]
  show ?thesis by simp
qed

lemma eta_entries_last_entry:
  assumes "map_of et k = None"
    and "eta_entries k (es @ [entry]) et = (et', None)"
    and "dict_get entry ''estimated_time_to_regain_access'' (PInt 0) = Inr v"
  shows "py_max (PInt 0) v = Inr (the (map_of et' (''act_'' @ k)))"
  using assms
proof (induction es arbitrary: et)
  case Nil
  then show ?case by (auto simp: update_conv' split: sum.splits)
next
  case (Cons e es)
  from Cons.prems(2) obtain x m where
    x: "dict_get e ''estimated_time_to_regain_access'' (PInt 0) = Inr x" and
    m: "py_max (case map_of et k of Some v \<Rightarrow> v | None \<Rightarrow> PInt 0) x = Inr m" and
    rest: "eta_entries k (es @ [entry]) (AList.update (''act_'' @ k) m et) = (et', None)"
    by (auto split: sum.splits)
  have "''act_'' @ k \<noteq> k" by (metis append_self_conv2 list.distinct(1))
  with Cons.prems(1) have "map_of (AList.update (''act_'' @ k) m et) k = None"
    by (simp add: update_conv')
  from Cons.IH [OF this rest Cons.prems(3)] show ?case .
qed

subsection \<open>Claims about the summary\<close>

text \<open>
  Whenever the summary is returned, its \<open>insights_app_usage\<close> is what \<^verbatim>\<open>max\<close> makes of
  the application percentages that the results report, in list order, and it is absent when
  no result reports one. On results that all have no headers the summary is returned,
  without a value and with both dicts empty.
\<close>

lemma app_usage_of_returned_summary:
  assumes "loads ''{}'' = Some (PDict [])"
    and "summarize_rate_limits_from_batch loads results = Inr s"
  shows "insights_app_usage s = max_or_none (List.map_filter (observed_app_usage loads) results)"
proof -
  from assms(2) obtain vals accs es where
    loop: "summarize_loop loads ([], [], []) results = Inr (vals, accs, es)" and
    s: "insights_app_usage s = max_or_none vals"
    by (auto simp: summarize_rate_limits_from_batch_def split: sum.splits)
  from summarize_loop_effect [OF assms(1) loop]
  have "vals = List.map_filter (observed_app_usage loads) results" by simp
  with s show ?thesis by simp
qed

lemma summary_of_headerless_results:
  assumes "\<forall>r \<in> set results. \<not> truthy (headers r)"
  shows "summarize_rate_limits_from_batch loads results =
           Inr \<lparr> insights_app_usage = None, insights_account_usages = [], etas = [] \<rparr>"
proof -
  from assms have "summarize_loop loads ([], [], []) results = Inr ([], [], [])"
    by (rule summarize_loop_headerless)
  then show ?thesis by (simp add: summarize_rate_limits_from_batch_def)
qed

text \<open>
  Claim C8 at two results for one account: the throttle header of the first has the value
  \<^verbatim>\<open>[]\<close>, the one of the second reports the application percentage 25.0. That is the
  only percentage observed, and the claim asks for a summary with the maximum 25.0; the
  function ends with \<^verbatim>\<open>AttributeError\<close> at the first result and returns no summary.
\<close>

theorem max_app_usage_lost_to_non_object_header:
  "List.map_filter (observed_app_usage example_loads) broken_then_25 = [Finite 25] \<and>
   summarize_rate_limits_from_batch example_loads broken_then_25 = Inl AttributeError"
  by code_simp

text \<open>
  Claim C3, as amended. Whenever the summary is returned, the usage percentage it gives for
  an account is the one reported by the last result, in list order, that reports a
  percentage for that account, as the float that \<^verbatim>\<open>float\<close> makes of it, and the account
  is missing from the dict when no result reports one for it.
\<close>

theorem account_usage_is_last_report:
  "loads ''{}'' = Some (PDict []) \<Longrightarrow>
   summarize_rate_limits_from_batch loads results = Inr s \<Longrightarrow>
     map_of (insights_account_usages s) acc =
       (case account_reports loads acc results of
          [] \<Rightarrow> None
        | v # vs \<Rightarrow> Some (last (v # vs)))"
proof -
  assume empty: "loads ''{}'' = Some (PDict [])"
    and run: "summarize_rate_limits_from_batch loads results = Inr s"
  from run obtain vals accs es where
    loop: "summarize_loop loads ([], [], []) results = Inr (vals, accs, es)" and
    s: "insights_account_usages s = accs"
    by (auto simp: summarize_rate_limits_from_batch_def split: sum.splits)
  from summarize_loop_effect [OF empty loop, of acc] s show ?thesis
    by (simp split: list.splits)
qed

text \<open>Claim C3 as amended, at two results for the account \<^verbatim>\<open>act_1\<close>.\<close>

theorem account_usage_is_last_report_witness:
  "example_loads ''{}'' = Some (PDict []) \<and>
   summarize_rate_limits_from_batch example_loads two_throttled =
     Inr \<lparr> insights_app_usage = Some (Finite 25),
           insights_account_usages = [(''act_1'', Finite 10)],
           etas = [] \<rparr> \<and>
   account_reports example_loads ''act_1'' two_throttled = [Finite 50, Finite 10] \<and>
   map_of [(''act_1'', Finite 10)] ''act_1'' = Some (last [Finite 50, Finite 10])"
proof -
  have e: "example_loads ''{}'' = Some (PDict [])" by code_simp
  have rep: "account_reports example_loads ''act_1'' two_throttled = [Finite 50, Finite 10]"
    by code_simp
  have run: "summarize_rate_limits_from_batch example_loads two_throttled =
     Inr \<lparr> insights_app_usage = Some (Finite 25),
           insights_account_usages = [(''act_1'', Finite 10)],
           etas = [] \<rparr>"
    by code_simp
  from account_usage_is_last_report [OF e run, of "''act_1''"] rep
  have "map_of [(''act_1'', Finite 10)] ''act_1'' = Some (last [Finite 50, Finite 10])" by simp
  with e run rep show ?thesis by simp
qed

text \<open>
  Claim C3 as stated fails: two results for \<^verbatim>\<open>act_1\<close> report 50.0 and then 10.0, and
  the summary gives 10.0 for the account, not the maximum.
\<close>

theorem account_usage_not_maximum_counterexample:
  "account_reports example_loads ''act_1'' two_throttled = [Finite 50, Finite 10] \<and>
   summarize_rate_limits_from_batch example_loads two_throttled =
     Inr \<lparr> insights_app_usage = Some (Finite 25),
           insights_account_usages = [(''act_1'', Finite 10)],
           etas = [] \<rparr>"
  by code_simp

text \<open>
  Claim C1 at a usage header with two entries for the account \<^verbatim>\<open>123\<close>. With the values
  0 and 120 in this order the summary gives 120, as the claim says; with 120 and 0 it gives
  0, where the claim asks for the maximum, 120. The loop reads \<^verbatim>\<open>etas.get(buc_acc_id, 0)\<close>
  and writes \<^verbatim>\<open>etas["act_" + buc_acc_id]\<close>, so what it reads is never what it wrote
  (lemma \<open>eta_entries_last_entry\<close>).
\<close>

theorem eta_follows_entry_order:
  "summarize_rate_limits_from_batch example_loads
     [entry_with_headers 0 ''act_123/insights'' [header ''x-business-use-case-usage'' usage_0_120]]
     = Inr \<lparr> insights_app_usage = None, insights_account_usages = [],
             etas = [(''act_123'', PInt 120)] \<rparr> \<and>
   summarize_rate_limits_from_batch example_loads
     [entry_with_headers 0 ''act_123/insights'' [header ''x-business-use-case-usage'' usage_120_0]]
     = Inr \<lparr> insights_app_usage = None, insights_account_usages = [],
             etas = [(''act_123'', PInt 0)] \<rparr>"
  by code_simp

text \<open>
  Claim C6 at a result whose throttle header has the value \<^verbatim>\<open>[]\<close>: the text is JSON
  but not an object, \<^verbatim>\<open>throttle.get\<close> raises \<^verbatim>\<open>AttributeError\<close>, the
  \<^verbatim>\<open>except\<close> clause lets it through, and no summary is returned. The claim says the
  function never raises.
\<close>

theorem summarize_raises_on_non_object_header:
  "summarize_rate_limits_from_batch example_loads
     [entry_with_headers 0 ''act_1/insights'' [header ''x-fb-ads-insights-throttle'' ''[]'']]
     = Inl AttributeError"
  by code_simp

text \<open>
  A header that does not decode at all is skipped, and the next result still counts.
\<close>

lemma undecodable_header_is_skipped:
  "summarize_rate_limits_from_batch example_loads
     [entry_with_headers 0 ''act_1/insights'' [header ''x-fb-ads-insights-throttle'' ''{oops''],
      entry_with_headers 1 ''act_1/ads'' [header ''x-fb-ads-insights-throttle'' throttle_25_10]]
     = Inr \<lparr> insights_app_usage = Some (Finite 25),
           insights_account_usages = [(''act_1'', Finite 10)],
             etas = [] \<rparr>"
  by code_simp

end
